theory Spec2Isabelle
  imports Complex_Main "HOL-Library.Log_Nat"
begin

section \<open>Python floats: IEEE binary64 over the rationals\<close>

text \<open>
  \<^verbatim>\<open>orla_to_ascii.py\<close> computes with Python floats. Every finite binary64 value is a
  rational number, and each operation returns the exact result rounded to the nearest
  binary64 value, ties to the even significand. The rounding is written out here:
  53 significant bits, the least exponent \<open>-1074\<close> (subnormal numbers), and overflow to
  an infinity once the rounded magnitude reaches \<open>2 ^ 1024\<close>. The sign of a zero is not
  kept: nothing in the script depends on it.
\<close>

definition round_half_even :: "rat \<Rightarrow> int" where
  "round_half_even y =
     (let f = \<lfloor>y\<rfloor>; d = y - of_int f
      in if d < 1 / 2 then f else if 1 / 2 < d then f + 1
         else if even f then f else f + 1)"

definition ilog2 :: "rat \<Rightarrow> int" where
  \<comment> \<open>for \<open>0 < x\<close>: the exponent \<open>e\<close> with \<open>2 ^ e \<le> x < 2 ^ (e + 1)\<close>\<close>
  "ilog2 x = (if 1 \<le> x then bitlen \<lfloor>x\<rfloor> - 1 else - bitlen (\<lceil>1 / x\<rceil> - 1))"

definition rne :: "rat \<Rightarrow> rat" where
  \<comment> \<open>round to nearest, ties to even, with the exponent unbounded above\<close>
  "rne x = (if x = 0 then 0 else
     (let q = 2 powi (max (ilog2 \<bar>x\<bar> - 52) (- 1074))
      in of_int (round_half_even (x / q)) * q))"

datatype pyfloat = Fin rat | PInf | NInf | NaN

definition to_float :: "rat \<Rightarrow> pyfloat" where
  "to_float x =
     (let y = rne x
      in if 2 ^ 1024 \<le> y then PInf else if y \<le> - (2 ^ 1024) then NInf else Fin y)"

fun is_neg :: "pyfloat \<Rightarrow> bool" where
  "is_neg (Fin a) = (a < 0)"
| "is_neg NInf = True"
| "is_neg PInf = False"
| "is_neg NaN = False"

fun fmul :: "pyfloat \<Rightarrow> pyfloat \<Rightarrow> pyfloat" where
  "fmul (Fin a) (Fin b) = to_float (a * b)"
| "fmul x y =
     (if x = NaN \<or> y = NaN \<or> x = Fin 0 \<or> y = Fin 0 then NaN
      else if is_neg x = is_neg y then PInf else NInf)"

fun fadd :: "pyfloat \<Rightarrow> pyfloat \<Rightarrow> pyfloat" where
  "fadd (Fin a) (Fin b) = to_float (a + b)"
| "fadd NaN y = NaN"
| "fadd x NaN = NaN"
| "fadd PInf NInf = NaN"
| "fadd NInf PInf = NaN"
| "fadd (Fin a) y = y"
| "fadd x y = x"

fun fdiv :: "pyfloat \<Rightarrow> rat \<Rightarrow> pyfloat" where
  \<comment> \<open>division by a finite float \<open>d\<close> other than zero: both divisions of the script
      are by the literal \<open>255.0\<close>, so Python's ZeroDivisionError has no branch here\<close>
  "fdiv (Fin a) d = to_float (a / d)"
| "fdiv NaN d = NaN"
| "fdiv x d = (if is_neg x = (d < 0) then PInf else NInf)"

datatype error =
    ZeroDivisionError
  | OverflowError
  | ValueError
  | IndexError
  | LibraryError string

definition float_of_int :: "int \<Rightarrow> error + pyfloat" where
  \<comment> \<open>the conversion Python applies to an int operand of a float operation\<close>
  "float_of_int i =
     (case to_float (of_int i) of Fin y \<Rightarrow> Inr (Fin y) | _ \<Rightarrow> Inl OverflowError)"

definition truediv :: "int \<Rightarrow> int \<Rightarrow> error + pyfloat" where
  \<comment> \<open>\<^verbatim>\<open>a / b\<close> on two ints: the correctly rounded quotient\<close>
  "truediv a b =
     (if b = 0 then Inl ZeroDivisionError
      else case to_float (of_int a / of_int b) of
             Fin y \<Rightarrow> Inr (Fin y) | _ \<Rightarrow> Inl OverflowError)"

definition py_int :: "pyfloat \<Rightarrow> error + int" where
  \<comment> \<open>\<^verbatim>\<open>int(x)\<close> on a float: truncation towards zero\<close>
  "py_int x =
     (case x of
        Fin a \<Rightarrow> Inr (if 0 \<le> a then \<lfloor>a\<rfloor> else \<lceil>a\<rceil>)
      | NaN \<Rightarrow> Inl ValueError
      | _ \<Rightarrow> Inl OverflowError)"

section \<open>Errors and strings\<close>

text \<open>
  A raise is a value: a function that can raise returns \<open>error + 'a\<close>, and \<open>ebind\<close> runs
  the rest of the code only when nothing was raised. A Python \<^verbatim>\<open>str\<close> is a sequence of
  code points, so it is a list of naturals here (a HOL \<open>char\<close> is one byte, and
  \<^verbatim>\<open>len\<close> counts code points).
\<close>

definition ebind :: "error + 'a \<Rightarrow> ('a \<Rightarrow> error + 'b) \<Rightarrow> error + 'b" where
  "ebind m f = (case m of Inl e \<Rightarrow> Inl e | Inr x \<Rightarrow> f x)"

type_synonym str = "nat list"

definition ascii :: "string \<Rightarrow> str" where
  "ascii s = map of_char s"

fun digits :: "nat \<Rightarrow> str" where
  "digits n = (if n < 10 then [48 + n] else digits (n div 10) @ [48 + n mod 10])"

declare digits.simps [simp del]

definition str_of_int :: "int \<Rightarrow> str" where
  \<comment> \<open>an int formatted by an f-string: decimal, with a minus sign when negative\<close>
  "str_of_int i = (if i < 0 then 45 # digits (nat (- i)) else digits (nat i))"

definition str_index :: "str \<Rightarrow> int \<Rightarrow> error + nat" where
  \<comment> \<open>\<^verbatim>\<open>s[i]\<close>: a negative index counts from the end\<close>
  "str_index s i =
     (let n = int (length s); j = (if i < 0 then n + i else i)
      in if 0 \<le> j \<and> j < n then Inr (s ! nat j) else Inl IndexError)"

fun join :: "str \<Rightarrow> str list \<Rightarrow> str" where
  "join sep [] = []"
| "join sep [l] = l"
| "join sep (l # m # ls) = l @ sep @ join sep (m # ls)"

section \<open>\<^verbatim>\<open>rgb_to_ansi\<close>\<close>

text \<open>
  \<^verbatim>\<open>int((r / 255.0) * 5)\<close>, written three times in the source, once per channel: the int
  is converted to a float, divided, multiplied by the float of \<open>5\<close> and truncated.
\<close>

definition cube_level :: "int \<Rightarrow> error + int" where
  "cube_level c = ebind (float_of_int c) (\<lambda>x. py_int (fmul (fdiv x 255) (Fin 5)))"

definition rgb_to_ansi :: "int \<Rightarrow> int \<Rightarrow> int \<Rightarrow> error + int" where
  "rgb_to_ansi r g b =
     (if r = g \<and> g = b \<and> r < 8 then Inr 16
      else if r = g \<and> g = b \<and> r > 248 then Inr 231
      else ebind (cube_level r) (\<lambda>r6.
           ebind (cube_level g) (\<lambda>g6.
           ebind (cube_level b) (\<lambda>b6.
           Inr (16 + r6 * 36 + g6 * 6 + b6)))))"

section \<open>Images and the imaging library\<close>

text \<open>
  The script gets its images from Pillow, which is not part of the repository. An image
  is its size, its mode and the RGBA samples \<^verbatim>\<open>img.load()\<close> gives access to, as a
  function of the coordinates \<open>(x, y)\<close>. The three library calls of the script are
  parameters of the model; each returns either an image or the name of the exception it
  raised.
\<close>

type_synonym pixel = "int \<times> int \<times> int \<times> int"

record image =
  img_width :: int
  img_height :: int
  img_mode :: string
  img_pixels :: "int \<Rightarrow> int \<Rightarrow> pixel"

record imaging =
  image_open :: "str \<Rightarrow> string + image"
  image_resize :: "image \<Rightarrow> int \<times> int \<Rightarrow> string + image"
  image_convert :: "image \<Rightarrow> string \<Rightarrow> string + image"

definition lib_call :: "string + 'a \<Rightarrow> error + 'a" where
  "lib_call m = (case m of Inl name \<Rightarrow> Inl (LibraryError name) | Inr x \<Rightarrow> Inr x)"

section \<open>\<^verbatim>\<open>orla_to_ascii\<close>\<close>

definition ascii_chars :: str where
  \<comment> \<open>the literal of line 41 as the file under \<^verbatim>\<open>src/\<close> stores it: the bytes
      \<^verbatim>\<open>c3 a2 e2 80 93 cb 86\<close>, which decode to the three code points U+00E2, U+2013 and
      U+02C6 (the UTF-8 bytes \<^verbatim>\<open>e2 96 88\<close> of U+2588 FULL BLOCK, read as cp1252)\<close>
  "ascii_chars = [0xE2, 0x2013, 0x2C6]"

definition target_height :: "int \<Rightarrow> image \<Rightarrow> error + int" where
  \<comment> \<open>lines 34 and 35: \<^verbatim>\<open>int(width * (img.height / img.width) * 0.5)\<close>\<close>
  "target_height width img =
     ebind (truediv (img_height img) (img_width img)) (\<lambda>aspect_ratio.
     ebind (float_of_int width) (\<lambda>w.
     py_int (fmul (fmul w aspect_ratio) (to_float (1 / 2)))))"

definition char_index :: "str \<Rightarrow> int \<Rightarrow> int \<Rightarrow> int \<Rightarrow> error + int" where
  \<comment> \<open>lines 62 to 73, for a palette \<open>chars\<close>\<close>
  "char_index chars r g b =
     ebind (float_of_int r) (\<lambda>fr.
     ebind (float_of_int g) (\<lambda>fg.
     ebind (float_of_int b) (\<lambda>fb.
     let luminance =
           fadd (fadd (fmul (to_float (299 / 1000)) fr) (fmul (to_float (587 / 1000)) fg))
                (fmul (to_float (114 / 1000)) fb);
         darkened = fmul luminance (to_float (3 / 10))
     in ebind (float_of_int (int (length chars) - 1)) (\<lambda>top.
        ebind (py_int (fmul (fdiv darkened 255) top)) (\<lambda>i.
        Inr (min i (int (length chars) - 1)))))))"

definition classify :: "str \<Rightarrow> pixel \<Rightarrow> error + nat \<times> int" where
  \<comment> \<open>lines 53 to 76, the body of the inner loop: the character and the colour code of
      one pixel\<close>
  "classify chars p =
     (case p of (r, g, b, a) \<Rightarrow>
        if a < 128 then Inr (32, 16)
        else ebind (char_index chars r g b) (\<lambda>char_idx.
             ebind (str_index chars char_idx) (\<lambda>char.
             ebind (rgb_to_ansi r g b) (\<lambda>ansi_code.
             Inr (char, ansi_code)))))"

definition colored :: "nat \<times> int \<Rightarrow> str" where
  \<comment> \<open>line 79: \<^verbatim>\<open>f"\033[38;5;{ansi_code}m{char}\033[0m"\<close>\<close>
  "colored c =
     (case c of (char, ansi_code) \<Rightarrow>
        27 # ascii ''[38;5;'' @ str_of_int ansi_code @ ascii ''m'' @ [char]
          @ 27 # ascii ''[0m'')"

fun line_loop :: "(int \<Rightarrow> int \<Rightarrow> pixel) \<Rightarrow> int \<Rightarrow> int list \<Rightarrow> str \<Rightarrow> error + str" where
  \<comment> \<open>\<^verbatim>\<open>for x in range(width)\<close>, with the columns still to do and the line so far\<close>
  "line_loop pixels y [] line = Inr line"
| "line_loop pixels y (x # xs) line =
     ebind (classify ascii_chars (pixels x y)) (\<lambda>c.
     line_loop pixels y xs (line @ colored c))"

fun output_loop ::
  "(int \<Rightarrow> int \<Rightarrow> pixel) \<Rightarrow> int list \<Rightarrow> int list \<Rightarrow> str list \<Rightarrow> error + str list" where
  \<comment> \<open>\<^verbatim>\<open>for y in range(height)\<close>, with the rows still to do and the lines so far\<close>
  "output_loop pixels xs [] output = Inr output"
| "output_loop pixels xs (y # ys) output =
     ebind (line_loop pixels y xs []) (\<lambda>line.
     output_loop pixels xs ys (output @ [line]))"

definition as_rgba :: "imaging \<Rightarrow> image \<Rightarrow> error + image" where
  \<comment> \<open>lines 44 and 45\<close>
  "as_rgba lib img =
     (if img_mode img \<noteq> ''RGBA'' then lib_call (image_convert lib img ''RGBA'')
      else Inr img)"

definition orla_to_ascii :: "imaging \<Rightarrow> str \<Rightarrow> int \<Rightarrow> error + str" where
  "orla_to_ascii lib image_path width =
     ebind (lib_call (image_open lib image_path)) (\<lambda>img.
     ebind (target_height width img) (\<lambda>height.
     ebind (lib_call (image_resize lib img (width, height))) (\<lambda>img.
     ebind (as_rgba lib img) (\<lambda>img.
     ebind (output_loop (img_pixels img) [0..width - 1] [0..height - 1] []) (\<lambda>output.
     Inr (join [10] output))))))"

section \<open>The command line\<close>

text \<open>
  What a run of the script leaves behind: its exit status and what it wrote. An exception
  that nothing catches ends the interpreter with status 1 and a traceback on the standard
  error stream. \<^verbatim>\<open>int(sys.argv[2])\<close> parses a string; the parser is a parameter.
\<close>

datatype report = Text str | Traceback error

record outcome =
  exit_code :: int
  stdout :: str
  stderr :: "report list"

definition argv_index :: "str list \<Rightarrow> nat \<Rightarrow> error + str" where
  "argv_index argv i = (if i < length argv then Inr (argv ! i) else Inl IndexError)"

definition main :: "imaging \<Rightarrow> (str \<Rightarrow> int option) \<Rightarrow> str list \<Rightarrow> outcome" where
  "main lib parse_int argv =
     (if length argv < 1 then
        \<lparr>exit_code = 1, stdout = [],
         stderr = [Text (ascii ''Usage: python3 orla_to_ascii.py image_path [width]'' @ [10])]\<rparr>
      else
        case ebind (argv_index argv 1) (\<lambda>image_path.
             ebind (if length argv > 2
                    then ebind (argv_index argv 2) (\<lambda>s.
                         case parse_int s of None \<Rightarrow> Inl ValueError | Some n \<Rightarrow> Inr n)
                    else Inr 40) (\<lambda>width.
             orla_to_ascii lib image_path width)) of
          Inl e \<Rightarrow> \<lparr>exit_code = 1, stdout = [], stderr = [Traceback e]\<rparr>
        | Inr ascii_art \<Rightarrow> \<lparr>exit_code = 0, stdout = ascii_art @ [10], stderr = []\<rparr>)"

section \<open>What the specification describes\<close>

text \<open>
  Modelled from the spec: \<^verbatim>\<open>Image.resize\<close> with \<^verbatim>\<open>Image.Resampling.NEAREST\<close> belongs to
  Pillow, which is not under \<^verbatim>\<open>src/\<close>. Section 4.2 of the specification describes it:
  output cell \<open>(x, y)\<close> is the source pixel whose index is the cell's index scaled along
  each axis, with no blending; a width that is not positive fails with
  \<^verbatim>\<open>InvalidDimension\<close>; a height of zero is a grid with no rows and not an error.
\<close>

definition nearest_resize :: "image \<Rightarrow> int \<times> int \<Rightarrow> string + image" where
  "nearest_resize img dims =
     (case dims of (w, h) \<Rightarrow>
        if w \<le> 0 \<or> h < 0 then Inl ''InvalidDimension''
        else Inr \<lparr>img_width = w, img_height = h, img_mode = img_mode img,
                 img_pixels = (\<lambda>x y. img_pixels img (x * img_width img div w)
                                                    (y * img_height img div h))\<rparr>)"

text \<open>
  Modelled from the spec: the loader of section 4.1, \<^verbatim>\<open>Image.open\<close> in the script. The
  files that exist are a map from paths to images; any other path fails with
  \<^verbatim>\<open>DecodeError\<close>. The conversion to RGBA keeps the samples, which the model holds as
  RGBA already (a source without alpha is fully opaque).
\<close>

definition spec_lib :: "(str \<rightharpoonup> image) \<Rightarrow> imaging" where
  "spec_lib files =
     \<lparr>image_open = (\<lambda>path. case files path of None \<Rightarrow> Inl ''DecodeError'' | Some img \<Rightarrow> Inr img),
      image_resize = nearest_resize,
      image_convert = (\<lambda>img m. Inr (img\<lparr>img_mode := m\<rparr>))\<rparr>"

text \<open>
  The height of section 4.2, in the specification's words: \<open>aspectRatio = height / width\<close>
  in floating point, \<open>targetHeight = floor(targetWidth * aspectRatio * 0.5)\<close>, every
  operation rounded to binary64 (the width too, as it enters the product).
\<close>

definition spec_target_height :: "int \<Rightarrow> image \<Rightarrow> int" where
  "spec_target_height target_width img =
     (let aspect_ratio = rne (of_int (img_height img) / of_int (img_width img))
      in \<lfloor>rne (rne (rne (of_int target_width) * aspect_ratio) * (1 / 2))\<rfloor>)"

text \<open>
  The glyph index of section 4.3, in the specification's words: the luminance with the
  BT.601 weights, darkened by \<open>0.3\<close>, scaled onto the palette and clamped to its indices.
\<close>

definition clamp :: "int \<Rightarrow> int \<Rightarrow> int \<Rightarrow> int" where
  "clamp x lo hi = max lo (min x hi)"

definition spec_glyph_index :: "int \<Rightarrow> int \<Rightarrow> int \<Rightarrow> int \<Rightarrow> int" where
  "spec_glyph_index palette_size r g b =
     (let L = rne (rne (rne (rne (299 / 1000) * of_int r) + rne (rne (587 / 1000) * of_int g))
                   + rne (rne (114 / 1000) * of_int b));
          darkened = rne (L * rne (3 / 10))
      in clamp \<lfloor>rne (rne (darkened / 255) * of_int (palette_size - 1))\<rfloor> 0 (palette_size - 1))"

text \<open>
  The colour index of section 4.3, in the specification's words, in exact arithmetic.
\<close>

definition spec_cube_index :: "int \<Rightarrow> int \<Rightarrow> int \<Rightarrow> int" where
  "spec_cube_index r g b =
     (let r6 = \<lfloor>(of_int r :: rat) / 255 * 5\<rfloor>;
          g6 = \<lfloor>(of_int g :: rat) / 255 * 5\<rfloor>;
          b6 = \<lfloor>(of_int b :: rat) / 255 * 5\<rfloor>
      in 16 + r6 * 36 + g6 * 6 + b6)"

definition spec_color_index :: "int \<Rightarrow> int \<Rightarrow> int \<Rightarrow> int" where
  "spec_color_index r g b =
     (if r = g \<and> g = b \<and> r < 8 then 16
      else if r = g \<and> g = b \<and> r > 248 then 231
      else spec_cube_index r g b)"

text \<open>
  The classifier of section 4.3 as a whole, for a palette: a pixel with \<open>alpha < 128\<close> is
  a space in colour 16; any other pixel gets the palette's glyph at the glyph index and
  the colour index of its red, green and blue.
\<close>

definition valid_pixel :: "pixel \<Rightarrow> bool" where
  "valid_pixel p =
     (case p of (r, g, b, a) \<Rightarrow>
        0 \<le> r \<and> r \<le> 255 \<and> 0 \<le> g \<and> g \<le> 255 \<and> 0 \<le> b \<and> b \<le> 255 \<and> 0 \<le> a \<and> a \<le> 255)"

definition spec_classify :: "str \<Rightarrow> pixel \<Rightarrow> nat \<times> int" where
  "spec_classify palette p =
     (case p of (r, g, b, a) \<Rightarrow>
        if a < 128 then (32, 16)
        else (palette ! nat (spec_glyph_index (int (length palette)) r g b),
              spec_color_index r g b))"

definition alpha_of :: "pixel \<Rightarrow> int" where
  "alpha_of p = (case p of (r, g, b, a) \<Rightarrow> a)"

section \<open>The images of the scenarios\<close>

text \<open>
  The synthetic 2x2 opaque image and the fully transparent 1x1 image of section 8 of the
  specification, both in mode RGBA, and the file systems that hold one of them.
\<close>

definition logo_path :: str where
  "logo_path = ascii ''logo.png''"

definition image_2x2 :: image where
  "image_2x2 =
     \<lparr>img_width = 2, img_height = 2, img_mode = ''RGBA'',
      img_pixels = (\<lambda>x y. if y = 0 then (if x = 0 then (0, 0, 0, 255) else (255, 255, 255, 255))
                           else (if x = 0 then (0, 154, 0, 255) else (255, 0, 0, 255)))\<rparr>"

definition image_1x1_clear :: image where
  "image_1x1_clear =
     \<lparr>img_width = 1, img_height = 1, img_mode = ''RGBA'', img_pixels = (\<lambda>x y. (0, 0, 0, 0))\<rparr>"

definition files_with :: "image \<Rightarrow> (str \<rightharpoonup> image)" where
  "files_with img = [logo_path \<mapsto> img]"

definition full_block :: str where
  \<comment> \<open>a palette of one glyph, U+2588 FULL BLOCK\<close>
  "full_block = [0x2588]"

section \<open>Facts about the rounding\<close>

lemma round_half_even_err: "\<bar>of_int (round_half_even y) - y\<bar> \<le> 1 / 2"
proof -
  have "of_int \<lfloor>y\<rfloor> \<le> y" and "y < of_int \<lfloor>y\<rfloor> + 1"
    by linarith+
  then show ?thesis
    by (auto simp: round_half_even_def Let_def)
qed

lemma round_half_even_of_int: "round_half_even (of_int n) = n"
  by (simp add: round_half_even_def)

lemma round_half_even_nonneg: "0 \<le> y \<Longrightarrow> 0 \<le> round_half_even y"
  by (auto simp: round_half_even_def Let_def)

lemma ilog2_lower:
  assumes "0 < x"
  shows "2 powi (ilog2 x) \<le> x"
proof (cases "1 \<le> x")
  case True
  then have n: "0 < \<lfloor>x\<rfloor>" by linarith
  have b: "0 \<le> bitlen \<lfloor>x\<rfloor> - 1"
    using n bitlen_bounds [OF n] bitlen_eq_zero_iff [of "\<lfloor>x\<rfloor>"] bitlen_nonneg [of "\<lfloor>x\<rfloor>"]
    by linarith
  have "(2::int) ^ nat (bitlen \<lfloor>x\<rfloor> - 1) \<le> \<lfloor>x\<rfloor>"
    using bitlen_bounds [OF n] by simp
  then have "(2::rat) ^ nat (bitlen \<lfloor>x\<rfloor> - 1) \<le> of_int \<lfloor>x\<rfloor>" by simp
  also have "\<dots> \<le> x" by linarith
  finally show ?thesis
    using True b by (simp add: ilog2_def power_int_nonneg_exp)
next
  case False
  define c where "c = \<lceil>1 / x\<rceil>"
  define b where "b = bitlen (c - 1)"
  have x1: "1 < 1 / x" using False assms by simp
  then have c2: "0 < c - 1" unfolding c_def by linarith
  have "c - 1 < 2 ^ nat b"
    using bitlen_bounds [OF c2] by (simp add: b_def)
  then have "c \<le> 2 ^ nat b" by linarith
  then have "(of_int c :: rat) \<le> 2 ^ nat b" by simp
  moreover have "1 / x \<le> of_int c" unfolding c_def by linarith
  ultimately have "1 / x \<le> 2 ^ nat b" by linarith
  then have "1 / 2 ^ nat b \<le> x"
    using assms by (simp add: field_simps)
  moreover have "0 \<le> b" by (simp add: b_def bitlen_nonneg)
  ultimately show ?thesis
    using False
    by (simp add: ilog2_def c_def [symmetric] b_def [symmetric] power_int_minus_divide
        power_int_nonneg_exp)
qed

lemma ilog2_upper:
  assumes "0 < x"
  shows "x < 2 powi (ilog2 x + 1)"
proof (cases "1 \<le> x")
  case True
  then have n: "0 < \<lfloor>x\<rfloor>" by linarith
  have "\<lfloor>x\<rfloor> + 1 \<le> 2 ^ nat (bitlen \<lfloor>x\<rfloor>)"
    using bitlen_bounds [OF n] by simp
  then have "(of_int (\<lfloor>x\<rfloor> + 1) :: rat) \<le> 2 ^ nat (bitlen \<lfloor>x\<rfloor>)"
    by (simp only: of_int_le_numeral_power_cancel_iff)
  moreover have "x < of_int (\<lfloor>x\<rfloor> + 1)" by linarith
  ultimately have "x < 2 ^ nat (bitlen \<lfloor>x\<rfloor>)" by linarith
  then show ?thesis
    using True by (simp add: ilog2_def power_int_nonneg_exp bitlen_nonneg)
next
  case False
  define c where "c = \<lceil>1 / x\<rceil>"
  define b where "b = bitlen (c - 1)"
  have x1: "1 < 1 / x" using False assms by simp
  then have c2: "0 < c - 1" unfolding c_def by linarith
  have b1: "0 \<le> b - 1"
    using bitlen_eq_zero_iff [of "c - 1"] bitlen_nonneg [of "c - 1"] c2
    unfolding b_def by linarith
  have "2 ^ nat (b - 1) \<le> c - 1"
    using bitlen_bounds [OF c2] by (simp add: b_def)
  then have "(2::rat) ^ nat (b - 1) \<le> of_int (c - 1)"
    by (simp only: numeral_power_le_of_int_cancel_iff)
  moreover have "of_int (c - 1) < 1 / x" unfolding c_def by linarith
  ultimately have "2 ^ nat (b - 1) < 1 / x" by linarith
  then have "x < 1 / 2 ^ nat (b - 1)"
    using assms by (simp add: field_simps)
  moreover have "2 powi (- b + 1) = (1 / 2 ^ nat (b - 1) :: rat)"
    using b1 power_int_minus_divide [of "2::rat" "b - 1"]
    by (simp add: power_int_nonneg_exp)
  ultimately show ?thesis
    using False by (simp add: ilog2_def c_def [symmetric] b_def [symmetric])
qed

lemma rne_nonneg: "0 \<le> x \<Longrightarrow> 0 \<le> rne x"
  by (simp add: rne_def Let_def round_half_even_nonneg)

lemma rne_err: "\<bar>rne x - x\<bar> \<le> \<bar>x\<bar> / 2 ^ 53 + 1 / 2 ^ 1075"
proof (cases "x = 0")
  case True
  then show ?thesis by (simp add: rne_def)
next
  case False
  define e where "e = ilog2 \<bar>x\<bar>"
  define q :: rat where "q = 2 powi (max (e - 52) (- 1074))"
  have q0: "0 < q" by (simp add: q_def)
  have r: "rne x = of_int (round_half_even (x / q)) * q"
    using False by (simp add: rne_def Let_def q_def e_def)
  have "rne x - x = (of_int (round_half_even (x / q)) - x / q) * q"
    using q0 by (simp add: r field_simps)
  then have "\<bar>rne x - x\<bar> = \<bar>of_int (round_half_even (x / q)) - x / q\<bar> * q"
    using q0 by (simp add: abs_mult)
  also have "\<dots> \<le> 1 / 2 * q"
    using round_half_even_err [of "x / q"] q0 by (intro mult_right_mono) auto
  finally have h: "\<bar>rne x - x\<bar> \<le> q / 2" by simp
  have "2 powi e \<le> \<bar>x\<bar>"
    unfolding e_def using False by (intro ilog2_lower) simp
  moreover have "(2::rat) powi (e - 52) = 2 powi e / 2 ^ 52"
    by (simp add: power_int_diff)
  ultimately have a: "(2::rat) powi (e - 52) \<le> \<bar>x\<bar> / 2 ^ 52"
    by (simp add: divide_right_mono)
  have b: "(2::rat) powi (- 1074) = 1 / 2 ^ 1074"
    by (simp add: power_int_minus_divide)
  have "q \<le> \<bar>x\<bar> / 2 ^ 52 + 1 / 2 ^ 1074"
  proof (cases "e - 52 \<le> - 1074")
    case True
    then have "q = 2 powi (- 1074)" by (simp add: q_def max_def)
    then show ?thesis using b by simp
  next
    case False
    then have "q = 2 powi (e - 52)" by (simp add: q_def max_def)
    then show ?thesis using a by simp
  qed
  then show ?thesis using h by simp
qed

lemma rne_exact:
  assumes "\<bar>n\<bar> < 2 ^ 53" and "- 1074 \<le> k"
  shows "rne (of_int n * 2 powi k) = of_int n * 2 powi k"
proof (cases "n = 0")
  case True
  then show ?thesis by (simp add: rne_def)
next
  case False
  define x :: rat where "x = of_int n * 2 powi k"
  define e where "e = ilog2 \<bar>x\<bar>"
  define j where "j = max (e - 52) (- 1074)"
  have x0: "x \<noteq> 0" using False by (simp add: x_def)
  have "2 powi e \<le> \<bar>x\<bar>"
    unfolding e_def using x0 by (intro ilog2_lower) simp
  also have "\<bar>x\<bar> = of_int \<bar>n\<bar> * 2 powi k"
    by (simp add: x_def abs_mult)
  also have "\<dots> < 2 ^ 53 * 2 powi k"
  proof -
    have "(of_int \<bar>n\<bar> :: rat) < 2 ^ 53" using assms(1) by simp
    then show ?thesis by (intro mult_strict_right_mono) simp_all
  qed
  also have "\<dots> = 2 powi (53 + k)"
    by (simp add: power_int_add)
  finally have lt: "(2::rat) powi e < 2 powi (53 + k)" .
  have "e < 53 + k"
  proof (rule ccontr)
    assume "\<not> e < 53 + k"
    then have "(2::rat) powi (53 + k) \<le> 2 powi e"
      by (intro power_int_increasing) simp_all
    with lt show False by simp
  qed
  then have jk: "j \<le> k" using assms(2) by (simp add: j_def)
  have "x / 2 powi j = of_int n * 2 powi (k - j)"
    by (simp add: x_def power_int_diff)
  also have "\<dots> = of_int (n * 2 ^ nat (k - j))"
    using jk by (simp add: power_int_nonneg_exp)
  finally have "round_half_even (x / 2 powi j) = n * 2 ^ nat (k - j)"
    by (simp only: round_half_even_of_int)
  then have "rne x = of_int (n * 2 ^ nat (k - j)) * 2 powi j"
    using x0 by (simp add: rne_def Let_def e_def [symmetric] j_def [symmetric])
  also have "\<dots> = of_int n * (2 powi (k - j) * 2 powi j)"
    using jk by (simp add: power_int_nonneg_exp)
  also have "\<dots> = x"
    by (simp add: x_def power_int_diff)
  finally show ?thesis by (simp add: x_def)
qed

lemma rne_of_int: "\<bar>n\<bar> < 2 ^ 53 \<Longrightarrow> rne (of_int n) = of_int n"
  using rne_exact [of n 0] by simp

lemma rne_half: "\<bar>n\<bar> < 2 ^ 53 \<Longrightarrow> rne (of_int n / 2) = of_int n / 2"
  using rne_exact [of n "- 1"] by (simp add: power_int_minus_divide)

section \<open>Bounds on the rounding\<close>

lemma rne_abs_le: "\<bar>rne x\<bar> \<le> 2 * \<bar>x\<bar> + 1"
proof -
  have "\<bar>rne x\<bar> \<le> \<bar>x\<bar> + \<bar>rne x - x\<bar>" by linarith
  moreover have "\<bar>x\<bar> / 2 ^ 53 \<le> \<bar>x\<bar>"
    by (simp add: field_simps)
  moreover have "(1::rat) / 2 ^ 1075 \<le> 1" by simp
  ultimately show ?thesis using rne_err [of x] by linarith
qed

lemma to_float_Fin: "\<bar>x\<bar> < 2 ^ 1000 \<Longrightarrow> to_float x = Fin (rne x)"
proof -
  assume a: "\<bar>x\<bar> < 2 ^ 1000"
  have "(2::rat) * 2 ^ 1000 + 1 < 2 ^ 1024" by simp
  then have "\<bar>rne x\<bar> < 2 ^ 1024"
    using rne_abs_le [of x] a by linarith
  then show ?thesis
    by (simp add: to_float_def Let_def abs_less_iff not_le)
qed

lemma rne_upper: "0 \<le> x \<Longrightarrow> x \<le> B \<Longrightarrow> rne x \<le> B * (1001 / 1000) + 1 / 1000"
proof -
  assume a: "0 \<le> x" "x \<le> B"
  have "\<bar>x\<bar> / 2 ^ 53 \<le> \<bar>x\<bar> / 1000"
    by (intro divide_left_mono) simp_all
  moreover have "(1::rat) / 2 ^ 1075 \<le> 1 / 1000"
    by (intro divide_left_mono) simp_all
  ultimately have "rne x \<le> x + x / 1000 + 1 / 1000"
    using rne_err [of x] a by (simp add: abs_le_iff)
  then show ?thesis using a by simp
qed

lemma rne_lower: "0 \<le> x \<Longrightarrow> B \<le> x \<Longrightarrow> B * (999 / 1000) - 1 / 1000 \<le> rne x"
proof -
  assume a: "0 \<le> x" "B \<le> x"
  have "\<bar>x\<bar> / 2 ^ 53 \<le> \<bar>x\<bar> / 1000"
    by (intro divide_left_mono) simp_all
  moreover have "(1::rat) / 2 ^ 1075 \<le> 1 / 1000"
    by (intro divide_left_mono) simp_all
  ultimately have "x - x / 1000 - 1 / 1000 \<le> rne x"
    using rne_err [of x] a by (simp add: abs_le_iff)
  then show ?thesis using a by simp
qed

lemma float_of_int_exact: "\<bar>i\<bar> < 2 ^ 53 \<Longrightarrow> float_of_int i = Inr (Fin (of_int i))"
proof -
  assume a: "\<bar>i\<bar> < 2 ^ 53"
  then have "\<bar>of_int i :: rat\<bar> < 2 ^ 53"
    by (metis of_int_abs of_int_less_numeral_power_cancel_iff)
  then have "\<bar>of_int i :: rat\<bar> < 2 ^ 1000" by simp
  then show ?thesis
    using a by (simp add: float_of_int_def to_float_Fin rne_of_int)
qed

lemma py_int_Fin_nonneg: "0 \<le> a \<Longrightarrow> py_int (Fin a) = Inr \<lfloor>a\<rfloor>"
  by (simp add: py_int_def)

lemma cube_fifths:
  "rne (rne (1 / 5) * 5) = 1" "rne (rne (2 / 5) * 5) = 2"
  "rne (rne (3 / 5) * 5) = 3" "rne (rne (4 / 5) * 5) = 4"
  by code_simp+

section \<open>The colour cube\<close>

lemma cube_level_rne:
  assumes "0 \<le> c" "c \<le> 255"
  shows "cube_level c = Inr \<lfloor>rne (rne (of_int c / 255) * 5)\<rfloor>"
proof -
  define a where "a = rne (of_int c / 255)"
  have c: "0 \<le> (of_int c :: rat)" "(of_int c :: rat) \<le> 255"
    using assms by simp_all
  have a0: "0 \<le> a" unfolding a_def using c by (intro rne_nonneg) simp
  have "a \<le> 1 * (1001 / 1000) + 1 / 1000"
    unfolding a_def using c by (intro rne_upper) simp_all
  then have a1: "a \<le> 2" by simp
  have f: "float_of_int c = Inr (Fin (of_int c))"
    using assms by (intro float_of_int_exact) simp
  have d: "to_float (of_int c / 255) = Fin a"
    unfolding a_def using c by (intro to_float_Fin) (simp add: abs_if)
  have m: "to_float (a * 5) = Fin (rne (a * 5))"
    using a0 a1 by (intro to_float_Fin) (simp add: abs_if)
  have "0 \<le> rne (a * 5)" using a0 by (intro rne_nonneg) simp
  then show ?thesis
    by (simp add: cube_level_def ebind_def f d m py_int_Fin_nonneg)
       (simp add: a_def)
qed

lemma cube_level_eq:
  assumes "0 \<le> c" "c \<le> 255"
  shows "cube_level c = Inr (c div 51)"
proof -
  define k where "k = c div 51"
  define a where "a = rne (of_int c / 255)"
  define p where "p = rne (a * 5)"
  have "\<lfloor>p\<rfloor> = k"
  proof (cases "c mod 51 = 0")
    case True
    then have "c = 51 * k" unfolding k_def by presburger
    moreover have "0 \<le> k" "k \<le> 5" unfolding k_def using assms by simp_all
    ultimately have "c = 0 \<or> c = 51 \<or> c = 102 \<or> c = 153 \<or> c = 204 \<or> c = 255"
      by presburger
    then consider "c = 0" | "c = 51" | "c = 102" | "c = 153" | "c = 204" | "c = 255"
      by blast
    then show ?thesis
    proof cases
      case 1 then show ?thesis by (simp add: p_def a_def k_def rne_def)
    next
      case 2 then show ?thesis using cube_fifths(1) by (simp add: p_def a_def k_def)
    next
      case 3 then show ?thesis using cube_fifths(2) by (simp add: p_def a_def k_def)
    next
      case 4 then show ?thesis using cube_fifths(3) by (simp add: p_def a_def k_def)
    next
      case 5 then show ?thesis using cube_fifths(4) by (simp add: p_def a_def k_def)
    next
      case 6
      have "rne (of_int 1) = 1" "rne (of_int 5) = 5"
        by (simp_all only: rne_of_int [of 1, simplified] rne_of_int [of 5, simplified] of_int_1 of_int_numeral)
      with 6 show ?thesis by (simp add: p_def a_def k_def)
    qed
  next
    case False
    then have m: "51 * k + 1 \<le> c" "c \<le> 51 * k + 50"
      unfolding k_def by presburger+
    have k: "0 \<le> k" "k \<le> 4"
      using m assms by linarith+
    have "(of_int (51 * k + 1) :: rat) \<le> of_int c" "(of_int c :: rat) \<le> of_int (51 * k + 50)"
      using m by (simp_all only: of_int_le_iff)
    then have C: "51 * of_int k + 1 \<le> (of_int c :: rat)" "(of_int c :: rat) \<le> 51 * of_int k + 50"
      by simp_all
    have K: "0 \<le> (of_int k :: rat)" "(of_int k :: rat) \<le> 4"
      using k by simp_all
    have x0: "0 \<le> (of_int c :: rat) / 255" using C K by simp
    have a0: "0 \<le> a" unfolding a_def using x0 by (rule rne_nonneg)
    have au: "a \<le> of_int c / 255 * (1001 / 1000) + 1 / 1000"
      unfolding a_def using x0 by (intro rne_upper) simp_all
    have al: "of_int c / 255 * (999 / 1000) - 1 / 1000 \<le> a"
      unfolding a_def using x0 by (intro rne_lower) simp_all
    have y0: "0 \<le> a * 5" using a0 by simp
    have pu: "p \<le> a * 5 * (1001 / 1000) + 1 / 1000"
      unfolding p_def using y0 by (intro rne_upper) simp_all
    have pl: "a * 5 * (999 / 1000) - 1 / 1000 \<le> p"
      unfolding p_def using y0 by (intro rne_lower) simp_all
    have "of_int k \<le> p" using pl al C K by linarith
    moreover have "p < of_int k + 1" using pu au C K by linarith
    ultimately show ?thesis by (simp add: floor_unique)
  qed
  then show ?thesis
    using cube_level_rne [OF assms] by (simp add: p_def a_def k_def)
qed

lemma exact_fifth: "\<lfloor>(of_int c :: rat) / 51\<rfloor> = c div 51"
  using floor_divide_of_int_eq [of c 51, where ?'a = rat] by simp

lemma rgb_to_ansi_eq:
  assumes "0 \<le> r" "r \<le> 255" "0 \<le> g" "g \<le> 255" "0 \<le> b" "b \<le> 255"
  shows "rgb_to_ansi r g b = Inr (spec_color_index r g b)"
  using assms
  by (simp add: rgb_to_ansi_def spec_color_index_def spec_cube_index_def cube_level_eq
      ebind_def exact_fifth Let_def)

lemma spec_color_index_range:
  assumes "0 \<le> r" "r \<le> 255" "0 \<le> g" "g \<le> 255" "0 \<le> b" "b \<le> 255"
  shows "16 \<le> spec_color_index r g b \<and> spec_color_index r g b \<le> 231"
proof -
  have "0 \<le> r div 51" "r div 51 \<le> 5" "0 \<le> g div 51" "g div 51 \<le> 5"
    "0 \<le> b div 51" "b div 51 \<le> 5"
    using assms by simp_all
  then show ?thesis
    by (simp add: spec_color_index_def spec_cube_index_def exact_fifth Let_def)
qed

section \<open>The luminance and the glyph index\<close>

lemma rne_step:
  assumes "0 \<le> x" "x \<le> B" "B * (1001 / 1000) + 1 / 1000 \<le> C"
  shows "0 \<le> rne x \<and> rne x \<le> C"
  using rne_nonneg [OF assms(1)] rne_upper [OF assms(1,2)] assms(3) by linarith

lemma to_float_small:
  assumes "0 \<le> x" "x \<le> 2 ^ 60"
  shows "to_float x = Fin (rne x)"
proof -
  have "(2::rat) ^ 60 < 2 ^ 1000" by simp
  then have "\<bar>x\<bar> < 2 ^ 1000" using assms by linarith
  then show ?thesis by (rule to_float_Fin)
qed

lemma prod_le: "0 \<le> (a::rat) \<Longrightarrow> a \<le> A \<Longrightarrow> 0 \<le> b \<Longrightarrow> b \<le> B \<Longrightarrow> a * b \<le> A * B"
  by (rule mult_mono) simp_all

lemma darkened_Fin:
  assumes "0 \<le> r" "r \<le> 255" "0 \<le> g" "g \<le> 255" "0 \<le> b" "b \<le> 255"
  defines "L \<equiv> rne (rne (rne (rne (299 / 1000) * of_int r) + rne (rne (587 / 1000) * of_int g))
                   + rne (rne (114 / 1000) * of_int b))"
  defines "d \<equiv> rne (L * rne (3 / 10))"
  shows "fmul (fadd (fadd (fmul (to_float (299 / 1000)) (Fin (of_int r)))
                          (fmul (to_float (587 / 1000)) (Fin (of_int g))))
                    (fmul (to_float (114 / 1000)) (Fin (of_int b))))
              (to_float (3 / 10)) = Fin d"
    and "0 \<le> d" and "d \<le> 779 / 10"
proof -
  define c1 c2 c3 c4 :: rat where "c1 = rne (299 / 1000)" and "c2 = rne (587 / 1000)"
    and "c3 = rne (114 / 1000)" and "c4 = rne (3 / 10)"
  define t1 t2 t3 where "t1 = rne (c1 * of_int r)" and "t2 = rne (c2 * of_int g)"
    and "t3 = rne (c3 * of_int b)"
  define s1 where "s1 = rne (t1 + t2)"
  have R: "0 \<le> (of_int r :: rat)" "(of_int r :: rat) \<le> 255"
    and G: "0 \<le> (of_int g :: rat)" "(of_int g :: rat) \<le> 255"
    and B: "0 \<le> (of_int b :: rat)" "(of_int b :: rat) \<le> 255"
    using assms(1-6) by simp_all
  have c1: "0 \<le> c1 \<and> c1 \<le> 301 / 1000" unfolding c1_def
    by (rule rne_step [where B = "299 / 1000"]) simp_all
  have c2: "0 \<le> c2 \<and> c2 \<le> 589 / 1000" unfolding c2_def
    by (rule rne_step [where B = "587 / 1000"]) simp_all
  have c3: "0 \<le> c3 \<and> c3 \<le> 116 / 1000" unfolding c3_def
    by (rule rne_step [where B = "114 / 1000"]) simp_all
  have c4: "0 \<le> c4 \<and> c4 \<le> 302 / 1000" unfolding c4_def
    by (rule rne_step [where B = "3 / 10"]) simp_all
  have p1: "0 \<le> c1 * of_int r" "c1 * of_int r \<le> 301 / 1000 * 255"
  proof -
    show "0 \<le> c1 * of_int r" using c1 R by simp
    show "c1 * of_int r \<le> 301 / 1000 * 255"
      by (rule prod_le) (use c1 R in simp_all)
  qed
  have p2: "0 \<le> c2 * of_int g" "c2 * of_int g \<le> 589 / 1000 * 255"
  proof -
    show "0 \<le> c2 * of_int g" using c2 G by simp
    show "c2 * of_int g \<le> 589 / 1000 * 255"
      by (rule prod_le) (use c2 G in simp_all)
  qed
  have p3: "0 \<le> c3 * of_int b" "c3 * of_int b \<le> 116 / 1000 * 255"
  proof -
    show "0 \<le> c3 * of_int b" using c3 B by simp
    show "c3 * of_int b \<le> 116 / 1000 * 255"
      by (rule prod_le) (use c3 B in simp_all)
  qed
  have t1: "0 \<le> t1 \<and> t1 \<le> 769 / 10" unfolding t1_def
    by (rule rne_step [OF p1]) simp
  have t2: "0 \<le> t2 \<and> t2 \<le> 1504 / 10" unfolding t2_def
    by (rule rne_step [OF p2]) simp
  have t3: "0 \<le> t3 \<and> t3 \<le> 297 / 10" unfolding t3_def
    by (rule rne_step [OF p3]) simp
  have q1: "0 \<le> t1 + t2" "t1 + t2 \<le> 2273 / 10" using t1 t2 by linarith+
  have s1: "0 \<le> s1 \<and> s1 \<le> 2276 / 10" unfolding s1_def
    by (rule rne_step [OF q1]) simp
  have q2: "0 \<le> s1 + t3" "s1 + t3 \<le> 2573 / 10" using s1 t3 by linarith+
  have L_eq: "L = rne (s1 + t3)"
    by (simp add: L_def s1_def t1_def t2_def t3_def c1_def c2_def c3_def)
  have L: "0 \<le> L \<and> L \<le> 2576 / 10" unfolding L_eq
    by (rule rne_step [OF q2]) simp
  have q3: "0 \<le> L * c4" "L * c4 \<le> 2576 / 10 * (302 / 1000)"
  proof -
    show "0 \<le> L * c4" using L c4 by simp
    show "L * c4 \<le> 2576 / 10 * (302 / 1000)"
      by (rule prod_le) (use L c4 in simp_all)
  qed
  have d_eq: "d = rne (L * c4)" by (simp add: d_def c4_def)
  have d: "0 \<le> d \<and> d \<le> 779 / 10" unfolding d_eq
    by (rule rne_step [OF q3]) simp
  show "0 \<le> d" "d \<le> 779 / 10" using d by simp_all
  have f1: "to_float (299 / 1000) = Fin c1" "to_float (587 / 1000) = Fin c2"
    "to_float (114 / 1000) = Fin c3" "to_float (3 / 10) = Fin c4"
    unfolding c1_def c2_def c3_def c4_def by (rule to_float_small; simp)+
  have f2: "to_float (c1 * of_int r) = Fin t1" "to_float (c2 * of_int g) = Fin t2"
    "to_float (c3 * of_int b) = Fin t3"
    unfolding t1_def t2_def t3_def using p1 p2 p3 by (intro to_float_small; simp)+
  have f3: "to_float (t1 + t2) = Fin s1" unfolding s1_def
    using q1 by (intro to_float_small) simp_all
  have f4: "to_float (s1 + t3) = Fin L" unfolding L_eq
    using q2 by (intro to_float_small) simp_all
  have f5: "to_float (L * c4) = Fin d" unfolding d_eq
    using q3 by (intro to_float_small) simp_all
  show "fmul (fadd (fadd (fmul (to_float (299 / 1000)) (Fin (of_int r)))
                          (fmul (to_float (587 / 1000)) (Fin (of_int g))))
                    (fmul (to_float (114 / 1000)) (Fin (of_int b))))
              (to_float (3 / 10)) = Fin d"
    by (simp only: f1 fmul.simps f2 fadd.simps f3 f4 f5)
qed

lemma scaled_Fin:
  assumes "0 \<le> d" "d \<le> 779 / 10"
  shows "to_float (d / 255) = Fin (rne (d / 255))"
    and "0 \<le> rne (d / 255)" and "rne (d / 255) \<le> 307 / 1000"
proof -
  have x: "0 \<le> d / 255" "d / 255 \<le> 779 / 10 / 255" using assms by simp_all
  have "0 \<le> rne (d / 255) \<and> rne (d / 255) \<le> 307 / 1000"
    by (rule rne_step [OF x]) simp
  then show "0 \<le> rne (d / 255)" "rne (d / 255) \<le> 307 / 1000" by simp_all
  show "to_float (d / 255) = Fin (rne (d / 255))"
    using x by (intro to_float_small) simp_all
qed

lemma char_index_eq:
  assumes "0 \<le> r" "r \<le> 255" "0 \<le> g" "g \<le> 255" "0 \<le> b" "b \<le> 255"
    and "1 \<le> length chars" "int (length chars) \<le> 2 ^ 53"
  shows "char_index chars r g b = Inr (spec_glyph_index (int (length chars)) r g b)"
proof -
  define n where "n = int (length chars)"
  define L where "L = rne (rne (rne (rne (299 / 1000) * of_int r) + rne (rne (587 / 1000) * of_int g))
                   + rne (rne (114 / 1000) * of_int b))"
  define d where "d = rne (L * rne (3 / 10))"
  define e where "e = rne (d / 255)"
  define v where "v = rne (e * of_int (n - 1))"
  note dk = darkened_Fin [OF assms(1-6), folded L_def d_def]
  note sc = scaled_Fin [OF dk(2,3), folded e_def]
  have n: "1 \<le> n" "n \<le> 2 ^ 53" using assms(7,8) by (simp_all add: n_def)
  have fr: "float_of_int r = Inr (Fin (of_int r))" "float_of_int g = Inr (Fin (of_int g))"
    "float_of_int b = Inr (Fin (of_int b))"
    using assms(1-6) by (intro float_of_int_exact; simp)+
  have ft: "float_of_int (n - 1) = Inr (Fin (of_int (n - 1)))"
    using n by (intro float_of_int_exact) simp
  have N: "0 \<le> (of_int (n - 1) :: rat)" "(of_int (n - 1) :: rat) \<le> 2 ^ 53"
  proof -
    show "0 \<le> (of_int (n - 1) :: rat)" using n by simp
    have "n - 1 \<le> 2 ^ 53" using n by simp
    then show "(of_int (n - 1) :: rat) \<le> 2 ^ 53"
      by (simp only: of_int_le_numeral_power_cancel_iff)
  qed
  have y: "0 \<le> e * of_int (n - 1)" "e * of_int (n - 1) \<le> 307 / 1000 * 2 ^ 53"
  proof -
    show "0 \<le> e * of_int (n - 1)" using sc(2) N(1) by simp
    show "e * of_int (n - 1) \<le> 307 / 1000 * 2 ^ 53"
      by (rule prod_le) (use sc N in simp_all)
  qed
  have fv: "to_float (e * of_int (n - 1)) = Fin v"
    unfolding v_def using y by (intro to_float_small) simp_all
  have v0: "0 \<le> v" unfolding v_def using y(1) by (rule rne_nonneg)
  then have f0: "0 \<le> \<lfloor>v\<rfloor>" by simp
  have "char_index chars r g b = Inr (min \<lfloor>v\<rfloor> (n - 1))"
    unfolding char_index_def n_def [symmetric]
    by (simp only: fr ft ebind_def sum.case Let_def dk(1) fdiv.simps sc(1) fmul.simps fv
        py_int_Fin_nonneg [OF v0])
  moreover have "spec_glyph_index n r g b = clamp \<lfloor>v\<rfloor> 0 (n - 1)"
    by (simp add: spec_glyph_index_def Let_def v_def e_def d_def L_def)
  moreover have "clamp \<lfloor>v\<rfloor> 0 (n - 1) = min \<lfloor>v\<rfloor> (n - 1)"
    using f0 n by (simp add: clamp_def)
  ultimately show ?thesis by (simp add: n_def)
qed

lemma spec_glyph_index_small:
  assumes "0 \<le> r" "r \<le> 255" "0 \<le> g" "g \<le> 255" "0 \<le> b" "b \<le> 255"
    and "1 \<le> n" "n \<le> 4"
  shows "spec_glyph_index n r g b = 0"
proof -
  define L where "L = rne (rne (rne (rne (299 / 1000) * of_int r) + rne (rne (587 / 1000) * of_int g))
                   + rne (rne (114 / 1000) * of_int b))"
  define d where "d = rne (L * rne (3 / 10))"
  define e where "e = rne (d / 255)"
  define v where "v = rne (e * of_int (n - 1))"
  note dk = darkened_Fin [OF assms(1-6), folded L_def d_def]
  note sc = scaled_Fin [OF dk(2,3), folded e_def]
  have N: "0 \<le> (of_int (n - 1) :: rat)" "(of_int (n - 1) :: rat) \<le> 3"
    using assms(7,8) by simp_all
  have y: "0 \<le> e * of_int (n - 1)" "e * of_int (n - 1) \<le> 307 / 1000 * 3"
  proof -
    show "0 \<le> e * of_int (n - 1)" using sc(2) N(1) by simp
    show "e * of_int (n - 1) \<le> 307 / 1000 * 3"
      by (rule prod_le) (use sc N in simp_all)
  qed
  have "0 \<le> v \<and> v \<le> 93 / 100" unfolding v_def
    by (rule rne_step [OF y]) simp
  then have "\<lfloor>v\<rfloor> = 0" by (simp add: floor_eq_iff)
  moreover have "spec_glyph_index n r g b = clamp \<lfloor>v\<rfloor> 0 (n - 1)"
    by (simp add: spec_glyph_index_def Let_def v_def e_def d_def L_def)
  ultimately show ?thesis using assms(7) by (simp add: clamp_def)
qed

section \<open>The classifier and the loops\<close>

lemma spec_glyph_index_range:
  "1 \<le> n \<Longrightarrow> 0 \<le> spec_glyph_index n r g b \<and> spec_glyph_index n r g b < n"
  by (simp add: spec_glyph_index_def Let_def clamp_def)

lemma classify_eq:
  assumes "valid_pixel p" "1 \<le> length chars" "int (length chars) \<le> 2 ^ 53"
  shows "classify chars p = Inr (spec_classify chars p)"
proof -
  obtain r g b a where p: "p = (r, g, b, a)" by (cases p) auto
  have v: "0 \<le> r" "r \<le> 255" "0 \<le> g" "g \<le> 255" "0 \<le> b" "b \<le> 255"
    using assms(1) by (simp_all add: valid_pixel_def p)
  have n: "1 \<le> int (length chars)" using assms(2) by simp
  note rg = spec_glyph_index_range [OF n, of r g b]
  have "str_index chars (spec_glyph_index (int (length chars)) r g b)
      = Inr (chars ! nat (spec_glyph_index (int (length chars)) r g b))"
    using rg by (simp add: str_index_def Let_def)
  then show ?thesis
    by (simp add: classify_def spec_classify_def p char_index_eq [OF v assms(2,3)]
        rgb_to_ansi_eq [OF v] ebind_def)
qed

lemma ascii_chars_length: "length ascii_chars = 3"
  by (simp add: ascii_chars_def)

lemma classify_ascii_chars:
  assumes "valid_pixel p"
  shows "classify ascii_chars p = Inr (spec_classify ascii_chars p)"
  by (rule classify_eq [OF assms]) (simp_all add: ascii_chars_length)

lemma spec_classify_ascii_chars:
  assumes "valid_pixel (r, g, b, a)"
  shows "spec_classify ascii_chars (r, g, b, a) =
    (if a < 128 then (32, 16) else (226, spec_color_index r g b))"
proof -
  have v: "0 \<le> r" "r \<le> 255" "0 \<le> g" "g \<le> 255" "0 \<le> b" "b \<le> 255"
    using assms by (simp_all add: valid_pixel_def)
  have "spec_glyph_index 3 r g b = 0"
    by (rule spec_glyph_index_small [OF v]) simp_all
  then show ?thesis
    by (simp add: spec_classify_def ascii_chars_length) (simp add: ascii_chars_def)
qed

section \<open>The height\<close>

lemma round_half_even_nonpos: "y \<le> 0 \<Longrightarrow> round_half_even y \<le> 0"
proof -
  assume a: "y \<le> 0"
  have f: "\<lfloor>y\<rfloor> \<le> 0" using a by simp
  show ?thesis
  proof (cases "\<lfloor>y\<rfloor> = 0")
    case True
    then have "0 \<le> y" by (simp add: floor_eq_iff)
    then have "y = 0" using a by simp
    then show ?thesis by (simp add: round_half_even_def)
  next
    case False
    then have "\<lfloor>y\<rfloor> + 1 \<le> 0" using f by linarith
    then show ?thesis using f by (simp add: round_half_even_def Let_def)
  qed
qed

lemma rne_nonpos: "x \<le> 0 \<Longrightarrow> rne x \<le> 0"
proof -
  assume a: "x \<le> 0"
  show ?thesis
  proof (cases "x = 0")
    case True
    then show ?thesis by (simp add: rne_def)
  next
    case False
    define q :: rat where "q = 2 powi (max (ilog2 \<bar>x\<bar> - 52) (- 1074))"
    have q0: "0 < q" by (simp add: q_def)
    then have "x / q \<le> 0" using a by (simp add: divide_le_0_iff)
    then have "round_half_even (x / q) \<le> 0" by (rule round_half_even_nonpos)
    then have "(of_int (round_half_even (x / q)) :: rat) \<le> 0" by simp
    then have "of_int (round_half_even (x / q)) * q \<le> 0"
      using q0 by (simp add: mult_le_0_iff)
    then show ?thesis using False by (simp add: rne_def Let_def q_def)
  qed
qed

lemma to_float_half: "to_float (1 / 2) = Fin (1 / 2)"
proof -
  have "rne (1 / 2) = 1 / 2" using rne_half [of 1] by simp
  then show ?thesis using to_float_Fin [of "1 / 2"] by simp
qed

lemma big_bound: "\<bar>x\<bar> \<le> 2 ^ 400 \<Longrightarrow> \<bar>rne x\<bar> \<le> (2::rat) ^ 402"
proof -
  assume "\<bar>x\<bar> \<le> 2 ^ 400"
  moreover have "(2::rat) * 2 ^ 400 + 1 \<le> 2 ^ 402" by simp
  ultimately show ?thesis using rne_abs_le [of x] by linarith
qed

lemma height_Fin:
  assumes "0 < img_width img" "0 < img_height img" "img_height img \<le> 2 ^ 400"
    and "\<bar>width\<bar> \<le> 2 ^ 400"
  defines "a \<equiv> rne (of_int (img_height img) / of_int (img_width img))"
  defines "p \<equiv> rne (rne (of_int width) * a)"
  shows "target_height width img = py_int (Fin (rne (p * (1 / 2))))"
    and "0 \<le> a"
proof -
  define iw ih :: rat where "iw = of_int (img_width img)" and "ih = of_int (img_height img)"
  have iw: "1 \<le> iw" using assms(1) by (simp add: iw_def)
  have ih: "0 < ih" using assms(2) by (simp add: ih_def)
  have "img_height img \<le> 2 ^ 400" by (rule assms(3))
  then have ih2: "ih \<le> 2 ^ 400" unfolding ih_def
    by (simp only: of_int_le_numeral_power_cancel_iff)
  have "ih / iw \<le> ih / 1" using iw ih by (intro divide_left_mono) simp_all
  then have r: "0 \<le> ih / iw" "ih / iw \<le> 2 ^ 400" using iw ih ih2 by simp_all
  have a_eq: "a = rne (ih / iw)" by (simp add: a_def ih_def iw_def)
  show a0: "0 \<le> a" unfolding a_eq using r(1) by (rule rne_nonneg)
  have "\<bar>ih / iw\<bar> \<le> 2 ^ 400" using r by simp
  then have a2: "\<bar>a\<bar> \<le> 2 ^ 402" unfolding a_eq by (rule big_bound)
  have "\<bar>ih / iw\<bar> < 2 ^ 1000" using r by simp
  then have fa: "to_float (ih / iw) = Fin a" unfolding a_eq by (rule to_float_Fin)
  have "\<bar>of_int width :: rat\<bar> = of_int \<bar>width\<bar>" by simp
  also have "\<dots> \<le> 2 ^ 400" using assms(4)
    by (simp only: of_int_le_numeral_power_cancel_iff)
  finally have w: "\<bar>of_int width :: rat\<bar> \<le> 2 ^ 400" .
  then have w2: "\<bar>rne (of_int width)\<bar> \<le> 2 ^ 402" by (rule big_bound)
  have "\<bar>of_int width :: rat\<bar> < 2 ^ 1000" using w by simp
  then have fw: "to_float (of_int width) = Fin (rne (of_int width))" by (rule to_float_Fin)
  have "\<bar>rne (of_int width) * a\<bar> \<le> 2 ^ 402 * 2 ^ 402"
    unfolding abs_mult by (rule prod_le) (use w2 a2 in simp_all)
  then have m: "\<bar>rne (of_int width) * a\<bar> \<le> 2 ^ 804" by simp
  then have "\<bar>rne (of_int width) * a\<bar> < 2 ^ 1000" by simp
  then have fp: "to_float (rne (of_int width) * a) = Fin p" unfolding p_def by (rule to_float_Fin)
  have "(2::rat) * 2 ^ 804 + 1 \<le> 2 ^ 806" by simp
  then have "\<bar>p\<bar> \<le> 2 ^ 806" unfolding p_def using rne_abs_le [of "rne (of_int width) * a"] m
    by linarith
  then have "\<bar>p * (1 / 2)\<bar> < 2 ^ 1000" by simp
  then have fh: "to_float (p * (1 / 2)) = Fin (rne (p * (1 / 2)))" by (rule to_float_Fin)
  have nz: "img_width img \<noteq> 0" using assms(1) by simp
  show "target_height width img = py_int (Fin (rne (p * (1 / 2))))"
    unfolding target_height_def truediv_def float_of_int_def
    by (simp only: nz if_False fa [unfolded ih_def iw_def] fw pyfloat.case sum.case ebind_def
        fmul.simps fp to_float_half fh)
qed

lemma target_height_pos:
  assumes "0 < img_width img" "0 < img_height img" "img_height img \<le> 2 ^ 400"
    and "0 < width" "width \<le> 2 ^ 400"
  shows "target_height width img = Inr (spec_target_height width img)"
    and "0 \<le> spec_target_height width img"
proof -
  define a where "a = rne (of_int (img_height img) / of_int (img_width img))"
  define p where "p = rne (rne (of_int width) * a)"
  have w: "\<bar>width\<bar> \<le> 2 ^ 400" using assms(4,5) by simp
  note h = height_Fin [OF assms(1-3) w, folded a_def p_def]
  have "0 \<le> rne (of_int width :: rat)" using assms(4) by (intro rne_nonneg) simp
  then have "0 \<le> rne (of_int width) * a" using h(2) by simp
  then have "0 \<le> p" unfolding p_def by (rule rne_nonneg)
  then have "0 \<le> p * (1 / 2)" by simp
  then have v: "0 \<le> rne (p * (1 / 2))" by (rule rne_nonneg)
  have s: "spec_target_height width img = \<lfloor>rne (p * (1 / 2))\<rfloor>"
    by (simp add: spec_target_height_def Let_def p_def a_def)
  show "target_height width img = Inr (spec_target_height width img)"
    using h(1) v by (simp add: s py_int_Fin_nonneg)
  show "0 \<le> spec_target_height width img" using v by (simp add: s)
qed

lemma target_height_nonpos:
  assumes "0 < img_width img" "0 < img_height img" "img_height img \<le> 2 ^ 400"
    and "width \<le> 0" "- (2 ^ 400) \<le> width"
  shows "\<exists>h. target_height width img = Inr h \<and> h \<le> 0 \<and> (width = 0 \<longrightarrow> h = 0)"
proof -
  define a where "a = rne (of_int (img_height img) / of_int (img_width img))"
  define p where "p = rne (rne (of_int width) * a)"
  define v where "v = rne (p * (1 / 2))"
  have w: "\<bar>width\<bar> \<le> 2 ^ 400" using assms(4,5) by simp
  note h = height_Fin [OF assms(1-3) w, folded a_def p_def v_def]
  have "rne (of_int width :: rat) \<le> 0" using assms(4) by (intro rne_nonpos) simp
  then have "rne (of_int width) * a \<le> 0" using h(2) by (simp add: mult_le_0_iff)
  then have "p \<le> 0" unfolding p_def by (rule rne_nonpos)
  then have "p * (1 / 2) \<le> 0" by simp
  then have v: "v \<le> 0" unfolding v_def by (rule rne_nonpos)
  have z: "v = 0" if "width = 0"
    using that by (simp add: v_def p_def rne_def)
  have "py_int (Fin v) = Inr (if 0 \<le> v then \<lfloor>v\<rfloor> else \<lceil>v\<rceil>)" by (simp add: py_int_def)
  moreover have "(if 0 \<le> v then \<lfloor>v\<rfloor> else \<lceil>v\<rceil>) \<le> 0"
    using v by (simp add: ceiling_le_iff floor_le_iff)
  moreover have "width = 0 \<longrightarrow> (if 0 \<le> v then \<lfloor>v\<rfloor> else \<lceil>v\<rceil>) = 0"
    using z by simp
  ultimately show ?thesis using h(1) by simp
qed

section \<open>The pipeline\<close>

lemma line_loop_gen:
  assumes "\<forall>x \<in> set xs. classify ascii_chars (pixels x y) = Inr (f x)"
  shows "line_loop pixels y xs line = Inr (line @ concat (map (\<lambda>x. colored (f x)) xs))"
  using assms
proof (induction xs arbitrary: line)
  case Nil
  then show ?case by simp
next
  case (Cons x xs)
  then show ?case by (simp add: ebind_def)
qed

lemma output_loop_gen:
  assumes "\<forall>y \<in> set ys. \<forall>x \<in> set xs. classify ascii_chars (pixels x y) = Inr (f x y)"
  shows "output_loop pixels xs ys out =
    Inr (out @ map (\<lambda>y. concat (map (\<lambda>x. colored (f x y)) xs)) ys)"
  using assms
proof (induction ys arbitrary: out)
  case Nil
  then show ?case by simp
next
  case (Cons y ys)
  then show ?case by (simp add: line_loop_gen [where f = "\<lambda>x. f x y"] ebind_def)
qed

lemma orla_to_ascii_open_fails:
  "image_open lib image_path = Inl e \<Longrightarrow> orla_to_ascii lib image_path width = Inl (LibraryError e)"
  by (simp add: orla_to_ascii_def lib_call_def ebind_def)

lemma orla_to_ascii_steps:
  assumes "image_open lib image_path = Inr img" "target_height width img = Inr height"
  shows "orla_to_ascii lib image_path width =
    ebind (lib_call (image_resize lib img (width, height))) (\<lambda>g.
    ebind (as_rgba lib g) (\<lambda>g'.
    ebind (output_loop (img_pixels g') [0..width - 1] [0..height - 1] []) (\<lambda>out.
    Inr (join [10] out))))"
  using assms by (simp add: orla_to_ascii_def lib_call_def ebind_def)

lemma orla_to_ascii_no_rows:
  assumes "image_open lib image_path = Inr img" "target_height width img = Inr height"
    and "height \<le> 0"
  shows "orla_to_ascii lib image_path width =
    ebind (lib_call (image_resize lib img (width, height))) (\<lambda>g.
    ebind (as_rgba lib g) (\<lambda>g'. Inr []))"
  using assms(3) by (simp add: orla_to_ascii_steps [OF assms(1,2)] ebind_def)

lemma str_of_16: "str_of_int 16 = [49, 54]"
  by (simp add: str_of_int_def digits.simps)

lemma str_of_231: "str_of_int 231 = [50, 51, 49]"
  by (simp add: str_of_int_def digits.simps)

lemma colored_space: "colored (32, 16) = [27, 91, 51, 56, 59, 53, 59, 49, 54, 109, 32, 27, 91, 48, 109]"
  by (simp add: colored_def ascii_def str_of_16)

lemma upto_0_1: "[0..(1::int)] = [0, 1]" "[0..(0::int)] = [0]"
  by (simp_all add: upto_rec1)

section \<open>The runs of the scenarios\<close>

lemma square_height:
  assumes "img_height img = img_width img" "0 < img_width img" "0 < width" "width < 2 ^ 53"
  shows "spec_target_height width img = width div 2"
proof -
  have one: "rne 1 = 1" using rne_of_int [of 1] by simp
  have w: "rne (of_int width) = of_int width"
    using assms(3,4) by (intro rne_of_int) simp
  have h: "rne (of_int width / 2) = of_int width / 2"
    using assms(3,4) by (intro rne_half) simp
  have "\<lfloor>(of_int width :: rat) / 2\<rfloor> = width div 2"
    using floor_divide_of_int_eq [of width 2, where ?'a = rat] by simp
  then show ?thesis
    using assms(1,2) by (simp add: spec_target_height_def Let_def one w h)
qed

lemma spec_lib_open: "image_open (spec_lib (files_with img)) logo_path = Inr img"
  by (simp add: spec_lib_def files_with_def)

lemma spec_lib_missing: "image_open (spec_lib Map.empty) p = Inl ''DecodeError''"
  by (simp add: spec_lib_def)

lemma height_2x2: "target_height 2 image_2x2 = Inr 1"
proof -
  have "spec_target_height 2 image_2x2 = 2 div 2"
    by (rule square_height) (simp_all add: image_2x2_def)
  moreover have "target_height 2 image_2x2 = Inr (spec_target_height 2 image_2x2)"
    by (rule target_height_pos) (simp_all add: image_2x2_def)
  ultimately show ?thesis by simp
qed

lemma height_1x1: "0 < width \<Longrightarrow> width < 2 ^ 53 \<Longrightarrow> target_height width image_1x1_clear = Inr (width div 2)"
proof -
  assume a: "0 < width" "width < 2 ^ 53"
  have "spec_target_height width image_1x1_clear = width div 2"
    by (rule square_height) (use a in \<open>simp_all add: image_1x1_clear_def\<close>)
  moreover have "target_height width image_1x1_clear = Inr (spec_target_height width image_1x1_clear)"
    by (rule target_height_pos) (use a in \<open>simp_all add: image_1x1_clear_def\<close>)
  ultimately show ?thesis by simp
qed

lemma classify_black: "classify ascii_chars (0, 0, 0, 255) = Inr (226, 16)"
proof -
  have v: "valid_pixel (0, 0, 0, 255)" by (simp add: valid_pixel_def)
  show ?thesis
    by (simp add: classify_ascii_chars [OF v] spec_classify_ascii_chars [OF v] spec_color_index_def)
qed

lemma classify_white: "classify ascii_chars (255, 255, 255, 255) = Inr (226, 231)"
proof -
  have v: "valid_pixel (255, 255, 255, 255)" by (simp add: valid_pixel_def)
  show ?thesis
    by (simp add: classify_ascii_chars [OF v] spec_classify_ascii_chars [OF v] spec_color_index_def)
qed

lemma run_2x2:
  "orla_to_ascii (spec_lib (files_with image_2x2)) logo_path 2 =
     Inr (colored (226, 16) @ colored (226, 231))"
proof -
  define g where "g = \<lparr>img_width = 2, img_height = 1, img_mode = ''RGBA'',
    img_pixels = (\<lambda>x y. img_pixels image_2x2 (x * 2 div 2) (y * 2 div 1))\<rparr>"
  have r: "image_resize (spec_lib (files_with image_2x2)) image_2x2 (2, 1) = Inr g"
    by (simp add: spec_lib_def nearest_resize_def g_def image_2x2_def)
  have c: "as_rgba (spec_lib (files_with image_2x2)) g = Inr g"
    by (simp add: as_rgba_def g_def)
  have px: "img_pixels g 0 0 = (0, 0, 0, 255)" "img_pixels g 1 0 = (255, 255, 255, 255)"
    by (simp_all add: g_def image_2x2_def)
  have l: "line_loop (img_pixels g) 0 [0, 1] [] = Inr (colored (226, 16) @ colored (226, 231))"
    by (simp add: px classify_black classify_white ebind_def)
  have o: "output_loop (img_pixels g) [0, 1] [0] [] = Inr [colored (226, 16) @ colored (226, 231)]"
    by (simp only: output_loop.simps l ebind_def sum.case append_Nil)
  have "orla_to_ascii (spec_lib (files_with image_2x2)) logo_path 2 =
    ebind (lib_call (image_resize (spec_lib (files_with image_2x2)) image_2x2 (2, 1))) (\<lambda>g.
    ebind (as_rgba (spec_lib (files_with image_2x2)) g) (\<lambda>g'.
    ebind (output_loop (img_pixels g') [0..2 - 1] [0..1 - 1] []) (\<lambda>out.
    Inr (join [10] out))))"
    by (rule orla_to_ascii_steps [OF spec_lib_open height_2x2])
  also have "\<dots> = Inr (colored (226, 16) @ colored (226, 231))"
    by (simp add: r c lib_call_def ebind_def upto_0_1 px classify_black classify_white)
  finally show ?thesis .
qed

lemma run_1x1_width_1:
  "orla_to_ascii (spec_lib (files_with image_1x1_clear)) logo_path 1 = Inr []"
proof -
  have h: "target_height 1 image_1x1_clear = Inr 0"
    using height_1x1 [of 1] by simp
  have "orla_to_ascii (spec_lib (files_with image_1x1_clear)) logo_path 1 =
    ebind (lib_call (image_resize (spec_lib (files_with image_1x1_clear)) image_1x1_clear (1, 0)))
      (\<lambda>g. ebind (as_rgba (spec_lib (files_with image_1x1_clear)) g) (\<lambda>g'. Inr []))"
    by (rule orla_to_ascii_no_rows [OF spec_lib_open h]) simp
  also have "\<dots> = Inr []"
    by (simp add: spec_lib_def nearest_resize_def as_rgba_def lib_call_def ebind_def
        image_1x1_clear_def)
  finally show ?thesis .
qed

lemma colored_226_16: "colored (226, 16) = [27, 91, 51, 56, 59, 53, 59, 49, 54, 109, 226, 27, 91, 48, 109]"
  by (simp add: colored_def ascii_def str_of_16)

lemma colored_226_231:
  "colored (226, 231) = [27, 91, 51, 56, 59, 53, 59, 50, 51, 49, 109, 226, 27, 91, 48, 109]"
  by (simp add: colored_def ascii_def str_of_231)

lemma classify_alpha: "alpha_of p < 128 \<Longrightarrow> classify chars p = Inr (32, 16)"
  by (cases p) (simp add: classify_def alpha_of_def)

lemma clear_rows:
  assumes "\<forall>y \<in> {0..height - 1}. \<forall>x \<in> {0..width - 1}. alpha_of (pixels x y) < 128"
  shows "output_loop pixels [0..width - 1] [0..height - 1] [] =
    Inr (replicate (nat height) (concat (replicate (nat width) (colored (32, 16)))))"
proof -
  have "\<forall>y \<in> set [0..height - 1]. \<forall>x \<in> set [0..width - 1].
      classify ascii_chars (pixels x y) = Inr (32, 16)"
    using assms by (simp add: classify_alpha)
  then have "output_loop pixels [0..width - 1] [0..height - 1] [] =
      Inr ([] @ map (\<lambda>y. concat (map (\<lambda>x. colored (32, 16)) [0..width - 1])) [0..height - 1])"
    by (rule output_loop_gen [where f = "\<lambda>x y. (32, 16)"])
  then show ?thesis by (simp add: map_replicate_const)
qed

section \<open>Checks of the model on known values\<close>

text \<open>
  The rounding reproduces the binary64 values of \<open>0.1\<close> and of \<open>0.1 + 0.2\<close> and the tie at
  \<open>2 ^ 53 + 1\<close>. The height is a floor of a floating-point product: for an image 49 wide
  and 2 high at width 49 the script computes 0, where the exact product is 1. A run that
  succeeds exits with status 0, and the usage message is out of reach of any argument
  vector that holds the script's name.
\<close>

lemma binary64_samples:
  "rne (1 / 10) = 3602879701896397 / 2 ^ 55"
  "rne (rne (1 / 10) + rne (2 / 10)) = 5404319552844596 / 2 ^ 54"
  "rne (2 ^ 53 + 1) = 2 ^ 53"
  by code_simp+

lemma floor_49x2:
  "\<lfloor>rne (rne (rne 49 * rne (2 / 49)) * (1 / 2))\<rfloor> = 0"
  "\<lfloor>(49::rat) * (2 / 49) * (1 / 2)\<rfloor> = 1"
  by code_simp+

lemma height_49x2:
  assumes "img_width img = 49" "img_height img = 2"
  shows "target_height 49 img = Inr 0"
proof -
  have "target_height 49 img = Inr (spec_target_height 49 img)"
    by (rule target_height_pos) (simp_all add: assms)
  moreover have "spec_target_height 49 img = 0"
    using floor_49x2(1) by (simp add: spec_target_height_def assms)
  ultimately show ?thesis by simp
qed

lemma main_success:
  assumes "orla_to_ascii lib image_path 40 = Inr ascii_art"
  shows "main lib parse_int [script, image_path] =
    \<lparr>exit_code = 0, stdout = ascii_art @ [10], stderr = []\<rparr>"
  using assms by (simp add: main_def argv_index_def ebind_def)

lemma main_usage_unreachable:
  "argv \<noteq> [] \<Longrightarrow> stderr (main lib parse_int argv) \<noteq>
     [Text (ascii ''Usage: python3 orla_to_ascii.py image_path [width]'' @ [10])]"
  by (cases argv) (auto simp: main_def split: sum.splits)

section \<open>Runs with the library the specification describes\<close>

lemma spec_lib_open_some:
  "files p = Some img \<Longrightarrow> image_open (spec_lib files) p = Inr img"
  by (simp add: spec_lib_def)

lemma spec_lib_open_none:
  "files p = None \<Longrightarrow> image_open (spec_lib files) p = Inl ''DecodeError''"
  by (simp add: spec_lib_def)

lemma spec_lib_nonpos_width:
  assumes "files p = Some img"
    and "0 < img_width img" "0 < img_height img" "img_height img \<le> 2 ^ 400"
    and "width \<le> 0" "- (2 ^ 400) \<le> width"
  shows "orla_to_ascii (spec_lib files) p width = Inl (LibraryError ''InvalidDimension'')"
proof -
  obtain height where h: "target_height width img = Inr height" "height \<le> 0"
    using target_height_nonpos [OF assms(2-6)] by blast
  have o: "image_open (spec_lib files) p = Inr img"
    using assms(1) by (simp add: spec_lib_def)
  have "orla_to_ascii (spec_lib files) p width =
      ebind (lib_call (image_resize (spec_lib files) img (width, height))) (\<lambda>g.
      ebind (as_rgba (spec_lib files) g) (\<lambda>g'. Inr []))"
    by (rule orla_to_ascii_no_rows [OF o h])
  also have "\<dots> = Inl (LibraryError ''InvalidDimension'')"
    using assms(5) by (simp add: spec_lib_def nearest_resize_def lib_call_def ebind_def)
  finally show ?thesis .
qed


lemma spec_lib_returns:
  assumes "files p = Some img" "target_height width img = Inr height" "0 \<le> height"
    and "0 < width" "\<forall>x y. valid_pixel (img_pixels img x y)"
  shows "\<exists>out. orla_to_ascii (spec_lib files) p width = Inr out"
proof -
  define g where "g = \<lparr>img_width = width, img_height = height, img_mode = img_mode img,
    img_pixels = (\<lambda>x y. img_pixels img (x * img_width img div width)
                                       (y * img_height img div height))\<rparr>"
  have o: "image_open (spec_lib files) p = Inr img"
    using assms(1) by (simp add: spec_lib_def)
  have r: "image_resize (spec_lib files) img (width, height) = Inr g"
    using assms(3,4) by (simp add: spec_lib_def nearest_resize_def g_def)
  obtain g' where c: "as_rgba (spec_lib files) g = Inr g'" "img_pixels g' = img_pixels g"
    by (cases "img_mode g = ''RGBA''") (simp_all add: as_rgba_def spec_lib_def lib_call_def)
  have v: "\<forall>y \<in> set [0..height - 1]. \<forall>x \<in> set [0..width - 1].
      classify ascii_chars (img_pixels g' x y) = Inr (spec_classify ascii_chars (img_pixels g' x y))"
    using assms(5) by (simp add: c(2) g_def classify_ascii_chars)
  have l: "output_loop (img_pixels g') [0..width - 1] [0..height - 1] [] =
      Inr (map (\<lambda>y. concat (map (\<lambda>x. colored (spec_classify ascii_chars (img_pixels g' x y)))
        [0..width - 1])) [0..height - 1])"
    using output_loop_gen [OF v, where out = "[]"] by simp
  have "orla_to_ascii (spec_lib files) p width =
    ebind (lib_call (image_resize (spec_lib files) img (width, height))) (\<lambda>g.
    ebind (as_rgba (spec_lib files) g) (\<lambda>g'.
    ebind (output_loop (img_pixels g') [0..width - 1] [0..height - 1] []) (\<lambda>out.
    Inr (join [10] out))))"
    by (rule orla_to_ascii_steps [OF o assms(2)])
  then show ?thesis
    by (simp add: r c(1) l lib_call_def ebind_def)
qed

section \<open>The claims\<close>

text \<open>
  C1. For an opaque pixel whose channels lie in \<open>[0, 255]\<close> the colour index follows the
  6x6x6 cube rule: 16 for a gray below 8, 231 for a gray above 248, and otherwise
  \<open>16 + r6 * 36 + g6 * 6 + b6\<close> with \<open>r6 = floor (r / 255 * 5)\<close> and likewise \<open>g6\<close>, \<open>b6\<close>.
  The floors of the claim are exact; the code computes them in binary64.
\<close>

theorem C1_cube_rule:
  assumes "128 \<le> a" "a \<le> 255"
    and "0 \<le> r" "r \<le> 255" "0 \<le> g" "g \<le> 255" "0 \<le> b" "b \<le> 255"
  shows "let n = (if r = g \<and> g = b \<and> r < 8 then 16
                  else if r = g \<and> g = b \<and> r > 248 then 231
                  else 16 + \<lfloor>(of_int r :: rat) / 255 * 5\<rfloor> * 36
                          + \<lfloor>(of_int g :: rat) / 255 * 5\<rfloor> * 6
                          + \<lfloor>(of_int b :: rat) / 255 * 5\<rfloor>)
         in rgb_to_ansi r g b = Inr n \<and> classify ascii_chars (r, g, b, a) = Inr (226, n)"
proof -
  have v: "valid_pixel (r, g, b, a)" using assms by (simp add: valid_pixel_def)
  have "classify ascii_chars (r, g, b, a) = Inr (226, spec_color_index r g b)"
    using assms(1) by (simp add: classify_ascii_chars [OF v] spec_classify_ascii_chars [OF v])
  then show ?thesis
    using rgb_to_ansi_eq [OF assms(3-8)]
    by (simp add: spec_color_index_def spec_cube_index_def Let_def)
qed

theorem C1_cube_rule_witness:
  "rgb_to_ansi 0 154 0 = Inr 34 \<and> classify ascii_chars (0, 154, 0, 255) = Inr (226, 34)
   \<and> rgb_to_ansi 3 3 3 = Inr 16 \<and> rgb_to_ansi 250 250 250 = Inr 231"
  using C1_cube_rule [of 255 0 154 0] C1_cube_rule [of 255 3 3 3]
    C1_cube_rule [of 255 250 250 250] exact_fifth [of 154]
  by (simp add: Let_def)

text \<open>
  C2. A pixel with \<open>alpha < 128\<close> is classified as a space with colour index 16, whatever
  its red, green and blue are (and whatever the palette is).
\<close>

theorem C2_transparent: "a < 128 \<Longrightarrow> classify chars (r, g, b, a) = Inr (32, 16)"
  by (simp add: classify_def)

theorem C2_transparent_witness:
  "(127::int) < 128 \<and> classify ascii_chars (255, 0, 77, 127) = Inr (32, 16)"
  using C2_transparent [of 127 ascii_chars 255 0 77] by simp




text \<open>
  C4, as stated, fails: the script has no check of the width at its entry point and no
  error of its own for it. It opens the image first, so with width 0 and a path that does
  not load, the failure is the loader's and not \<^verbatim>\<open>InvalidDimension\<close>.
\<close>

theorem C4_counterexample:
  "orla_to_ascii (spec_lib Map.empty) logo_path 0 = Inl (LibraryError ''DecodeError'')"
  by (rule orla_to_ascii_open_fails) (rule spec_lib_missing)


text \<open>
  C4, amended. On the library the specification describes, for every requested width
  \<open>\<le> 0\<close> (and at least \<open>- (2 ^ 400)\<close>) and a path that loads an image with positive
  dimensions (its height at most \<open>2 ^ 400\<close>), the conversion fails with
  \<^verbatim>\<open>InvalidDimension\<close>; the failure comes from the resize, after the image is opened, so
  a path that does not load fails with the loader's error whatever the width. Width 1 and
  width 0 do not crash: width 0 ends in \<^verbatim>\<open>InvalidDimension\<close>, and width 1, for an image
  whose samples are bytes, returns an output.
\<close>

theorem C4_amended:
  assumes "files image_path = Some img"
    and "0 < img_width img" "0 < img_height img" "img_height img \<le> 2 ^ 400"
    and "width \<le> 0" "- (2 ^ 400) \<le> width"
    and "files missing_path = None"
  shows "orla_to_ascii (spec_lib files) image_path width = Inl (LibraryError ''InvalidDimension'')
       \<and> orla_to_ascii (spec_lib files) image_path 0 = Inl (LibraryError ''InvalidDimension'')
       \<and> ((\<forall>x y. valid_pixel (img_pixels img x y)) \<longrightarrow>
            (\<exists>out. orla_to_ascii (spec_lib files) image_path 1 = Inr out))
       \<and> orla_to_ascii (spec_lib files) missing_path width = Inl (LibraryError ''DecodeError'')
       \<and> orla_to_ascii (spec_lib files) missing_path 1 = Inl (LibraryError ''DecodeError'')"
proof -
  have a: "orla_to_ascii (spec_lib files) image_path width = Inl (LibraryError ''InvalidDimension'')"
    using assms(1-6) by (rule spec_lib_nonpos_width)
  have b: "orla_to_ascii (spec_lib files) image_path 0 = Inl (LibraryError ''InvalidDimension'')"
    using assms(1-4) by (rule spec_lib_nonpos_width) simp_all
  have h: "target_height 1 img = Inr (spec_target_height 1 img)" "0 \<le> spec_target_height 1 img"
    using target_height_pos [OF assms(2-4), of 1] by simp_all
  have c: "\<exists>out. orla_to_ascii (spec_lib files) image_path 1 = Inr out"
    if "\<forall>x y. valid_pixel (img_pixels img x y)"
    using assms(1) h _ that by (rule spec_lib_returns) simp
  have o: "image_open (spec_lib files) missing_path = Inl ''DecodeError''"
    using assms(7) by (simp add: spec_lib_def)
  have d: "orla_to_ascii (spec_lib files) missing_path w = Inl (LibraryError ''DecodeError'')" for w
    using o by (rule orla_to_ascii_open_fails)
  show ?thesis using a b c d by blast
qed

theorem C4_amended_witness:
  "orla_to_ascii (spec_lib (files_with image_1x1_clear)) logo_path (- 3)
     = Inl (LibraryError ''InvalidDimension'')
   \<and> orla_to_ascii (spec_lib (files_with image_1x1_clear)) logo_path 0
     = Inl (LibraryError ''InvalidDimension'')
   \<and> (\<exists>out. orla_to_ascii (spec_lib (files_with image_1x1_clear)) logo_path 1 = Inr out)
   \<and> orla_to_ascii (spec_lib (files_with image_1x1_clear)) (ascii ''missing.png'') (- 3)
     = Inl (LibraryError ''DecodeError'')"
proof -
  have s: "files_with image_1x1_clear logo_path = Some image_1x1_clear"
    by (simp add: files_with_def)
  have n: "files_with image_1x1_clear (ascii ''missing.png'') = None"
    by (simp add: files_with_def logo_path_def ascii_def)
  have v: "\<forall>x y. valid_pixel (img_pixels image_1x1_clear x y)"
    by (simp add: image_1x1_clear_def valid_pixel_def)
  have d: "0 < img_width image_1x1_clear" "0 < img_height image_1x1_clear"
    "img_height image_1x1_clear \<le> 2 ^ 400"
    by (simp_all add: image_1x1_clear_def)
  have w: "(- 3 :: int) \<le> 0" "- (2 ^ 400) \<le> (- 3 :: int)" by simp_all
  from C4_amended [of "files_with image_1x1_clear" logo_path image_1x1_clear "- 3"
      "ascii ''missing.png''", OF s d w n] v
  show ?thesis by simp
qed


text \<open>
  C5, as stated, fails: a gray with \<open>r = g = b\<close> in \<open>249 .. 254\<close> is neither pure black nor
  pure white, and the code gives it 231 where the cube formula gives 188.
\<close>

theorem C5_counterexample:
  "rgb_to_ansi 250 250 250 = Inr 231 \<and> spec_cube_index 250 250 250 = 188"
  using rgb_to_ansi_eq [of 250 250 250] exact_fifth [of 250]
  by (simp add: spec_color_index_def spec_cube_index_def)

text \<open>
  C5, amended. For channels in \<open>[0, 255]\<close>: unless the pixel is a gray above 248, the colour
  index is the cube formula \<open>16 + r6 * 36 + g6 * 6 + b6\<close> and lies in \<open>[16, 231]\<close>; a gray
  above 248, pure white among them, gives 231; pure black gives 16.
\<close>

theorem C5_amended:
  assumes "0 \<le> r" "r \<le> 255" "0 \<le> g" "g \<le> 255" "0 \<le> b" "b \<le> 255"
  shows "(\<not> (r = g \<and> g = b \<and> r > 248) \<longrightarrow>
           rgb_to_ansi r g b = Inr (spec_cube_index r g b)
           \<and> 16 \<le> spec_cube_index r g b \<and> spec_cube_index r g b \<le> 231)
       \<and> (r = g \<and> g = b \<and> r > 248 \<longrightarrow> rgb_to_ansi r g b = Inr 231)
       \<and> rgb_to_ansi 0 0 0 = Inr 16 \<and> rgb_to_ansi 255 255 255 = Inr 231"
proof -
  have low: "spec_cube_index r g b = 16" if "r = g \<and> g = b \<and> r < 8"
  proof -
    have "r div 51 = 0" using that assms(1) by simp
    then show ?thesis using that by (simp add: spec_cube_index_def exact_fifth)
  qed
  have eq: "spec_color_index r g b = spec_cube_index r g b"
    if "\<not> (r = g \<and> g = b \<and> r > 248)"
    using that low by (auto simp: spec_color_index_def)
  have "rgb_to_ansi r g b = Inr (spec_cube_index r g b)
      \<and> 16 \<le> spec_cube_index r g b \<and> spec_cube_index r g b \<le> 231"
    if "\<not> (r = g \<and> g = b \<and> r > 248)"
    using rgb_to_ansi_eq [OF assms] spec_color_index_range [OF assms] eq [OF that]
    by simp
  moreover have "rgb_to_ansi r g b = Inr 231" if "r = g \<and> g = b \<and> r > 248"
    using that by (simp add: rgb_to_ansi_def)
  moreover have "rgb_to_ansi 0 0 0 = Inr 16" "rgb_to_ansi 255 255 255 = Inr 231"
    by (simp_all add: rgb_to_ansi_def)
  ultimately show ?thesis by blast
qed

theorem C5_amended_witness:
  "rgb_to_ansi 0 154 0 = Inr 34 \<and> rgb_to_ansi 5 5 5 = Inr 16 \<and> rgb_to_ansi 249 249 249 = Inr 231"
  using C5_amended [of 0 154 0] C5_amended [of 5 5 5] C5_amended [of 249 249 249]
    exact_fifth [of 154] exact_fifth [of 5]
  by (simp add: spec_cube_index_def)

text \<open>
  C6. For an opaque pixel the glyph index is the specification's formula: the BT.601
  luminance, darkened by 0.3, scaled by \<open>paletteSize - 1\<close> over 255, floored and clamped
  to the palette. With a palette of one glyph the index is 0 and the glyph is that one
  character. The palette literal of the file under \<^verbatim>\<open>src/\<close> has three code points as
  stored; the index is 0 for it as well, so every opaque pixel gets its first character.
\<close>

theorem C6_glyph_index:
  assumes "128 \<le> a" "a \<le> 255"
    and "0 \<le> r" "r \<le> 255" "0 \<le> g" "g \<le> 255" "0 \<le> b" "b \<le> 255"
    and "1 \<le> length chars" "int (length chars) \<le> 2 ^ 53"
  shows "char_index chars r g b = Inr (spec_glyph_index (int (length chars)) r g b)
       \<and> (length chars = 1 \<longrightarrow>
            char_index chars r g b = Inr 0
            \<and> classify chars (r, g, b, a) = Inr (chars ! 0, spec_color_index r g b))
       \<and> char_index ascii_chars r g b = Inr 0
       \<and> classify ascii_chars (r, g, b, a) = Inr (ascii_chars ! 0, spec_color_index r g b)"
proof -
  have v: "valid_pixel (r, g, b, a)" using assms by (simp add: valid_pixel_def)
  note ci = char_index_eq [OF assms(3-8)]
  have one: "spec_glyph_index 1 r g b = 0"
    by (rule spec_glyph_index_small [OF assms(3-8)]) simp_all
  have three: "spec_glyph_index 3 r g b = 0"
    by (rule spec_glyph_index_small [OF assms(3-8)]) simp_all
  have "classify chars (r, g, b, a) = Inr (chars ! 0, spec_color_index r g b)"
    if "length chars = 1"
    using that assms(1) one classify_eq [OF v assms(9,10)] by (simp add: spec_classify_def)
  moreover have "char_index ascii_chars r g b = Inr 0"
    using ci [of ascii_chars] three by (simp add: ascii_chars_length)
  moreover have "classify ascii_chars (r, g, b, a) = Inr (ascii_chars ! 0, spec_color_index r g b)"
    using assms(1) three classify_ascii_chars [OF v]
    by (simp add: spec_classify_def ascii_chars_length)
  ultimately show ?thesis
    using ci [OF assms(9,10)] one by auto
qed

theorem C6_glyph_index_witness:
  "char_index full_block 0 154 0 = Inr 0
   \<and> classify full_block (0, 154, 0, 255) = Inr (9608, 34)
   \<and> classify ascii_chars (0, 154, 0, 255) = Inr (226, 34)"
  using C6_glyph_index [of 255 0 154 0 full_block] exact_fifth [of 154]
  by (auto simp: full_block_def ascii_chars_def spec_color_index_def spec_cube_index_def)

text \<open>
  C7. The synthetic 2x2 opaque image at width 2, with the resize of section 4.2: the height
  is 1, and the output is one row of two cells, the classifications of the two pixels of
  the top row, black and white.
\<close>

theorem C7_round_trip:
  "target_height 2 image_2x2 = Inr 1
   \<and> orla_to_ascii (spec_lib (files_with image_2x2)) logo_path 2 =
       Inr (colored (226, 16) @ colored (226, 231))
   \<and> classify ascii_chars (img_pixels image_2x2 0 0) = Inr (226, 16)
   \<and> classify ascii_chars (img_pixels image_2x2 1 0) = Inr (226, 231)
   \<and> colored (226, 16) @ colored (226, 231) =
       [27, 91, 51, 56, 59, 53, 59, 49, 54, 109, 226, 27, 91, 48, 109,
        27, 91, 51, 56, 59, 53, 59, 50, 51, 49, 109, 226, 27, 91, 48, 109]"
  using height_2x2 run_2x2 classify_black classify_white
  by (simp add: image_2x2_def colored_226_16 colored_226_231)

text \<open>
  C8, as stated, fails: at width 1 the height of a 1x1 image is \<open>int(0.5) = 0\<close>, and the
  output is empty, not one cell.
\<close>

theorem C8_counterexample:
  "orla_to_ascii (spec_lib (files_with image_1x1_clear)) logo_path 1 \<noteq> Inr (colored (32, 16))"
  by (simp add: run_1x1_width_1 colored_space)

text \<open>
  C8, amended. For a fully transparent 1x1 image and a width \<open>w\<close> with \<open>0 < w < 2 ^ 53\<close> the
  grid asked of the resize has \<open>w\<close> columns and \<open>floor (w / 2)\<close> rows; when the resize
  returns it with every pixel transparent, the output is \<open>floor (w / 2)\<close> lines of \<open>w\<close>
  cells, each a space between \<^verbatim>\<open>ESC[38;5;16m\<close> and \<^verbatim>\<open>ESC[0m\<close>: one line of two cells at
  width 2, twenty lines of forty at width 40, nothing at width 1.
\<close>

theorem C8_amended:
  assumes "image_open lib image_path = Inr img"
    and "img_width img = 1" "img_height img = 1"
    and "0 < width" "width < 2 ^ 53"
    and "image_resize lib img (width, width div 2) = Inr g" "img_mode g = ''RGBA''"
    and "\<forall>y \<in> {0..width div 2 - 1}. \<forall>x \<in> {0..width - 1}. alpha_of (img_pixels g x y) < 128"
  shows "orla_to_ascii lib image_path width =
    Inr (join [10] (replicate (nat (width div 2))
                      (concat (replicate (nat width) (colored (32, 16))))))"
proof -
  have "width \<le> 2 ^ 400" using assms(5) by simp
  then have "target_height width img = Inr (spec_target_height width img)"
    using assms(2-4) by (intro target_height_pos) simp_all
  moreover have "spec_target_height width img = width div 2"
    using assms(2-5) by (intro square_height) simp_all
  ultimately have h: "target_height width img = Inr (width div 2)" by simp
  show ?thesis
    by (simp add: orla_to_ascii_steps [OF assms(1) h] assms(6,7) lib_call_def as_rgba_def
        ebind_def clear_rows [OF assms(8)])
qed

theorem C8_amended_witness:
  "orla_to_ascii (spec_lib (files_with image_1x1_clear)) logo_path 2 =
     Inr (colored (32, 16) @ colored (32, 16))"
proof -
  define g where "g = \<lparr>img_width = 2, img_height = 1, img_mode = ''RGBA'',
    img_pixels = (\<lambda>x y. img_pixels image_1x1_clear (x * 1 div 2) (y * 1 div 1))\<rparr>"
  have r: "image_resize (spec_lib (files_with image_1x1_clear)) image_1x1_clear (2, 2 div 2) = Inr g"
    by (simp add: spec_lib_def nearest_resize_def g_def image_1x1_clear_def)
  have t: "\<forall>y \<in> {0..2 div 2 - 1}. \<forall>x \<in> {0..2 - 1}. alpha_of (img_pixels g x y) < 128"
    by (simp add: g_def image_1x1_clear_def alpha_of_def)
  have "orla_to_ascii (spec_lib (files_with image_1x1_clear)) logo_path 2 =
    Inr (join [10] (replicate (nat (2 div 2))
                      (concat (replicate (nat 2) (colored (32, 16))))))"
    by (rule C8_amended [OF spec_lib_open _ _ _ _ r _ t])
       (simp_all add: image_1x1_clear_def g_def)
  then show ?thesis by (simp add: numeral_2_eq_2)
qed

text \<open>
  C9. Run without an image path, the script does exit with status 1, but not through its
  usage message: \<^verbatim>\<open>len(sys.argv) < 1\<close> is false for an argument vector that holds the
  script's name, so the script goes on to \<^verbatim>\<open>sys.argv[1]\<close>, and the IndexError ends it
  with a traceback.
\<close>

theorem C9_missing_path:
  "main lib parse_int [ascii ''orla_to_ascii.py''] =
     \<lparr>exit_code = 1, stdout = [], stderr = [Traceback IndexError]\<rparr>"
  by (simp add: main_def argv_index_def ebind_def)

text \<open>
  C10. Whatever branch classifies a pixel, its colour index lies in \<open>[16, 231]\<close>:
  \<^verbatim>\<open>rgb_to_ansi\<close> returns a value in that range for all channels in \<open>[0, 255]\<close>, and the
  transparent branch gives 16.
\<close>

theorem C10_index_range:
  assumes "0 \<le> r" "r \<le> 255" "0 \<le> g" "g \<le> 255" "0 \<le> b" "b \<le> 255"
    and "0 \<le> a" "a \<le> 255"
  shows "(\<exists>n. rgb_to_ansi r g b = Inr n \<and> 16 \<le> n \<and> n \<le> 231)
       \<and> (\<exists>glyph n. classify ascii_chars (r, g, b, a) = Inr (glyph, n) \<and> 16 \<le> n \<and> n \<le> 231)"
proof -
  have v: "valid_pixel (r, g, b, a)" using assms by (simp add: valid_pixel_def)
  have "classify ascii_chars (r, g, b, a) =
      Inr (if a < 128 then (32, 16) else (226, spec_color_index r g b))"
    by (simp add: classify_ascii_chars [OF v] spec_classify_ascii_chars [OF v])
  then show ?thesis
    using rgb_to_ansi_eq [OF assms(1-6)] spec_color_index_range [OF assms(1-6)] by auto
qed

theorem C10_index_range_witness:
  "(\<exists>n. rgb_to_ansi 255 0 0 = Inr n \<and> 16 \<le> n \<and> n \<le> 231)
   \<and> (\<exists>glyph n. classify ascii_chars (255, 0, 0, 200) = Inr (glyph, n) \<and> 16 \<le> n \<and> n \<le> 231)"
  using C10_index_range [of 255 0 0 200] by simp
end
